theory Spec2Isabelle
  imports Complex_Main "HOL-Library.Word"
begin

section \<open>Python helpers shared by the drivers\<close>

type_synonym byte = "8 word"
type_synonym bytes = "8 word list"

text \<open>\<open>str(n)\<close> of a non-negative integer: its decimal digits, most significant first.\<close>

definition digit_char :: "nat \<Rightarrow> char" where
  "digit_char d = ''0123456789'' ! d"

fun str_nat :: "nat \<Rightarrow> string" where
  "str_nat n = (if n < 10 then [digit_char n] else str_nat (n div 10) @ [digit_char (n mod 10)])"

declare str_nat.simps [simp del]

definition str_int :: "int \<Rightarrow> string" where
  "str_int i = (if i < 0 then CHR ''-'' # str_nat (nat (- i)) else str_nat (nat i))"

text \<open>\<open>s.split(sep)\<close> with a one-character separator: never empty, \<open>''''.split('','')\<close> is
  the list holding the empty string.\<close>

fun py_split :: "'a \<Rightarrow> 'a list \<Rightarrow> 'a list list" where
  "py_split sep [] = [[]]"
| "py_split sep (c # cs) =
     (if c = sep then [] # py_split sep cs
      else (case py_split sep cs of [] \<Rightarrow> [[c]] | h # t \<Rightarrow> (c # h) # t))"

text \<open>\<open>str.isdigit\<close> and \<open>int\<close> on ASCII text.\<close>

definition is_digit :: "char \<Rightarrow> bool" where
  "is_digit c \<longleftrightarrow> c \<in> set ''0123456789''"

definition isdigit :: "string \<Rightarrow> bool" where
  "isdigit s \<longleftrightarrow> s \<noteq> [] \<and> list_all is_digit s"

definition digit_value :: "char \<Rightarrow> nat" where
  "digit_value c = of_char c - 48"

definition nat_of_digits :: "string \<Rightarrow> nat" where
  "nat_of_digits s = foldl (\<lambda>acc c. 10 * acc + digit_value c) 0 s"

text \<open>\<open>str.strip()\<close>: the whitespace of ASCII text, on both ends.\<close>

definition is_space :: "char \<Rightarrow> bool" where
  "is_space c \<longleftrightarrow> of_char c \<in> {9, 10, 11, 12, 13, 28, 29, 30, 31, 32 :: nat}"

definition strip_str :: "string \<Rightarrow> string" where
  "strip_str s = rev (dropWhile is_space (rev (dropWhile is_space s)))"

section \<open>Rigol DS4000: the waveform capture path of \<open>ScopeArray\<close>\<close>

datatype scope_error =
    RigolDS4000TraceNotReady
  | Malformed_data
  | Communication_error
  | UnicodeDecodeError
  | Preamble_ValueError
  | Preamble_TypeError
  | Linspace_ValueError
  | Preamble_AttributeError

datatype io_event = Write string | Ask string | Read_raw | Warning string

text \<open>The instrument is a scripted collaborator: its reply to the k-th query and the block
  returned by the k-th raw read. Transport timeouts are outside the model.\<close>

record instrument =
  ask_reply :: "nat \<Rightarrow> string"
  read_reply :: "nat \<Rightarrow> bytes"

record preambleNT =
  pformat :: real
  pmode :: real
  points :: real
  pcount :: real
  xincrement :: real
  xorigin :: real
  xreference :: real
  yincrement :: real
  yorigin :: real
  yreference :: real

text \<open>The attributes of a \<open>ScopeArray\<close> together with the traffic it has caused so far.
  Python floats are idealised as real numbers.\<close>

record scope_array =
  channel :: int
  raw :: bool
  max_read_step :: nat
  trace_ready :: bool
  shape :: nat
  setpoints :: "real list"
  preamble :: "preambleNT option"
  io_log :: "io_event list"
  n_asks :: nat
  n_reads :: nat

definition init :: "int \<Rightarrow> bool \<Rightarrow> scope_array" where
  "init ch rw = \<lparr>channel = ch, raw = rw, max_read_step = 50, trace_ready = False,
     shape = 1400, setpoints = [], preamble = None, io_log = [], n_asks = 0, n_reads = 0\<rparr>"

definition instrument_write :: "string \<Rightarrow> scope_array \<Rightarrow> scope_array" where
  "instrument_write cmd s = s\<lparr>io_log := io_log s @ [Write cmd]\<rparr>"

definition instrument_ask :: "instrument \<Rightarrow> string \<Rightarrow> scope_array \<Rightarrow> string \<times> scope_array" where
  "instrument_ask dev cmd s =
     (ask_reply dev (n_asks s), s\<lparr>io_log := io_log s @ [Ask cmd], n_asks := Suc (n_asks s)\<rparr>)"

definition read_raw :: "instrument \<Rightarrow> scope_array \<Rightarrow> bytes \<times> scope_array" where
  "read_raw dev s =
     (read_reply dev (n_reads s), s\<lparr>io_log := io_log s @ [Read_raw], n_reads := Suc (n_reads s)\<rparr>)"

subsection \<open>\<open>_validate_strip_block\<close>\<close>

text \<open>\<open>bytes.strip()\<close> removes space, tab, newline, carriage return, vertical tab and form
  feed from both ends.\<close>

definition is_space_byte :: "byte \<Rightarrow> bool" where
  "is_space_byte b \<longleftrightarrow> b = 0x20 \<or> b = 0x09 \<or> b = 0x0A \<or> b = 0x0D \<or> b = 0x0B \<or> b = 0x0C"

definition strip_bytes :: "bytes \<Rightarrow> bytes" where
  "strip_bytes bs = rev (dropWhile is_space_byte (rev (dropWhile is_space_byte bs)))"

definition is_digit_byte :: "byte \<Rightarrow> bool" where
  "is_digit_byte b \<longleftrightarrow> 0x30 \<le> b \<and> b \<le> 0x39"

definition int_of_digit_bytes :: "bytes \<Rightarrow> nat" where
  "int_of_digit_bytes ds = foldl (\<lambda>acc b. 10 * acc + (unat b - 48)) 0 ds"

text \<open>The header is the first 11 bytes decoded as ASCII (a byte above 127 raises
  UnicodeDecodeError); the regular expression \<open>#9(\d{9})\<close> must match it.\<close>

definition header_matches :: "bytes \<Rightarrow> bool" where
  "header_matches header \<longleftrightarrow>
     length header = 11 \<and> take 2 header = [0x23, 0x39] \<and> list_all is_digit_byte (drop 2 header)"

definition validate_strip_block :: "bytes \<Rightarrow> scope_error + bytes" where
  "validate_strip_block block =
     (let header = take 11 block in
      if list_ex (\<lambda>b. 0x80 \<le> b) header then Inl UnicodeDecodeError
      else if header_matches header then
        (let size = int_of_digit_bytes (drop 2 header);
             block_nh = strip_bytes (drop 11 block)
         in if size = length block_nh then Inr block_nh else Inl Malformed_data)
      else Inl Malformed_data)"

subsection \<open>\<open>get_preamble\<close> and \<open>prepare_curvedata\<close>\<close>

text \<open>\<open>conv\<close>: \<open>int(x) if x.isdigit() else float(x)\<close>. Python's \<open>float\<close> is a parameter
  (\<open>None\<close> where it raises ValueError).\<close>

definition conv :: "(string \<Rightarrow> real option) \<Rightarrow> string \<Rightarrow> real option" where
  "conv pyfloat x = (if isdigit x then Some (real (nat_of_digits x)) else pyfloat x)"

text \<open>\<open>PreambleNT(*preamble_num)\<close>: the named tuple takes exactly ten values; any other
  number is a TypeError (\<open>None\<close>).\<close>

definition PreambleNT :: "real list \<Rightarrow> preambleNT option" where
  "PreambleNT xs =
     (case xs of
        [f, m, p, c, xi, xo, xr, yi, yo, yr] \<Rightarrow>
          Some \<lparr>pformat = f, pmode = m, points = p, pcount = c,
                xincrement = xi, xorigin = xo, xreference = xr,
                yincrement = yi, yorigin = yo, yreference = yr\<rparr>
      | _ \<Rightarrow> None)"

definition get_preamble ::
  "(string \<Rightarrow> real option) \<Rightarrow> instrument \<Rightarrow> scope_array \<Rightarrow> (scope_error + unit) \<times> scope_array" where
  "get_preamble pyfloat dev s =
     (let (preamble_raw, s1) = instrument_ask dev '':WAVeform:PREamble?'' s;
          preamble_num = map (conv pyfloat) (py_split CHR '','' (strip_str preamble_raw))
      in if list_ex (\<lambda>v. v = None) preamble_num then (Inl Preamble_ValueError, s1)
         else (case PreambleNT (map the preamble_num) of
                 None \<Rightarrow> (Inl Preamble_TypeError, s1)
               | Some p \<Rightarrow> (Inr (), s1\<lparr>preamble := Some p\<rparr>)))"

text \<open>\<open>int(x)\<close> of a float truncates towards zero; \<open>np.linspace(start, stop, num)\<close> raises
  for a negative \<open>num\<close> and otherwise gives \<open>num\<close> evenly spaced values from \<open>start\<close>
  to \<open>stop\<close>.\<close>

definition py_int :: "real \<Rightarrow> int" where
  "py_int x = (if 0 \<le> x then \<lfloor>x\<rfloor> else \<lceil>x\<rceil>)"

definition linspace :: "real \<Rightarrow> real \<Rightarrow> nat \<Rightarrow> real list" where
  "linspace start stop num =
     (if num = 1 then [start]
      else map (\<lambda>i. start + real i * ((stop - start) / real (num - 1))) [0..<num])"

definition prepare_curvedata ::
  "(string \<Rightarrow> real option) \<Rightarrow> instrument \<Rightarrow> scope_array \<Rightarrow> (scope_error + unit) \<times> scope_array" where
  "prepare_curvedata pyfloat dev s =
     (let s1 = (if raw s then instrument_write '':WAVeform:MODE RAW'' (instrument_write '':STOP'' s)
                else instrument_write '':WAVeform:MODE NORM'' s)
      in case get_preamble pyfloat dev s1 of
           (Inl e, s2) \<Rightarrow> (Inl e, s2)
         | (Inr _, s2) \<Rightarrow>
             (case preamble s2 of
                None \<Rightarrow> (Inl Preamble_AttributeError, s2)
              | Some p \<Rightarrow>
                  if py_int (points p) < 0 then (Inl Linspace_ValueError, s2)
                  else
                    (let xdata = linspace (xorigin p) (xorigin p + xincrement p * points p)
                                   (nat (py_int (points p)))
                     in (Inr (), s2\<lparr>setpoints := xdata, shape := nat (py_int (points p)),
                                    trace_ready := True\<rparr>))))"

subsection \<open>\<open>get_raw\<close>\<close>

text \<open>The \<open>for i in range(self.max_read_step)\<close> loop with its \<open>else\<close> branch: \<open>n\<close> is the
  number of iterations left, \<open>data_bin\<close> the accumulator. The sleep between two iterations
  and the log messages are not part of the state.\<close>

fun read_loop ::
  "instrument \<Rightarrow> nat \<Rightarrow> scope_array \<Rightarrow> bytes \<Rightarrow> (scope_error + bytes) \<times> scope_array" where
  "read_loop dev 0 s data_bin = (Inl Communication_error, s)"
| "read_loop dev (Suc n) s data_bin =
     (let (reply, s1) = instrument_ask dev '':WAVeform:STATus?'' s;
          status = hd (py_split CHR '','' reply);
          s2 = instrument_write '':WAVeform:DATA?'' s1;
          (data_chunk, s3) = read_raw dev s2
      in case validate_strip_block data_chunk of
           Inl e \<Rightarrow> (Inl e, s3)
         | Inr data_chuck \<Rightarrow>
             (let data_bin' = data_bin @ data_chuck
              in if status = ''IDLE'' then (Inr data_bin', instrument_write '':WAVeform:END'' s3)
                 else read_loop dev n s3 data_bin'))"

definition to_volts :: "preambleNT \<Rightarrow> bytes \<Rightarrow> real list" where
  "to_volts p data_bin =
     map (\<lambda>b. (real (unat b) - yreference p - yorigin p) * yincrement p) data_bin"

definition read_data :: "instrument \<Rightarrow> scope_array \<Rightarrow> (scope_error + bytes) \<times> scope_array" where
  "read_data dev s =
     (if raw s then
        (let s1 = instrument_write ('':WAVeform:POINts '' @ str_nat (shape s)) s;
             s2 = instrument_write '':WAVeform:RESet'' s1;
             s3 = instrument_write '':WAVeform:BEGin'' s2
         in read_loop dev (max_read_step s) s3 [])
      else
        (let s1 = instrument_write '':WAVeform:DATA?'' s;
             (data_chunk, s2) = read_raw dev s1
         in case validate_strip_block data_chunk of
              Inl e \<Rightarrow> (Inl e, s2)
            | Inr b \<Rightarrow> (Inr ([] @ b), s2)))"

text \<open>The state in which the readout starts: the ready flag consumed, the byte format and
  the source channel selected.\<close>

definition begin_read :: "scope_array \<Rightarrow> scope_array" where
  "begin_read s = instrument_write ('':WAVeform:SOURce CHAN'' @ str_int (channel s))
     (instrument_write '':WAVeform:FORMat BYTE'' (s\<lparr>trace_ready := False\<rparr>))"

definition get_raw :: "instrument \<Rightarrow> scope_array \<Rightarrow> (scope_error + real list) \<times> scope_array" where
  "get_raw dev s =
     (if \<not> trace_ready s then (Inl RigolDS4000TraceNotReady, s)
      else
        (let s0 = s\<lparr>trace_ready := False\<rparr>;
             s1 = instrument_write '':WAVeform:FORMat BYTE'' s0;
             s2 = instrument_write ('':WAVeform:SOURce CHAN'' @ str_int (channel s)) s1
         in case read_data dev s2 of
              (Inl e, s3) \<Rightarrow> (Inl e, s3)
            | (Inr data_bin, s3) \<Rightarrow>
                (case preamble s3 of
                   None \<Rightarrow> (Inl Preamble_AttributeError, s3)
                 | Some p \<Rightarrow> (Inr (to_volts p data_bin), s3))))"

text \<open>What the script holds for the i-th iteration of a readout that starts in state
  \<open>s\<close>: the status field of the reply and the validated block.\<close>

definition status_at :: "instrument \<Rightarrow> scope_array \<Rightarrow> nat \<Rightarrow> string" where
  "status_at dev s i = hd (py_split CHR '','' (ask_reply dev (n_asks s + i)))"

definition chunk_at :: "instrument \<Rightarrow> scope_array \<Rightarrow> nat \<Rightarrow> scope_error + bytes" where
  "chunk_at dev s i = validate_strip_block (read_reply dev (n_reads s + i))"

section \<open>Keithley 3706A: specifier validation and channel operations\<close>

datatype switch_error =
    Keithley3706AInvalidValue
  | Keithley3706AUnknownOrEmptySlot
  | ValueError
  | KeyError
  | IndexError
  | StopIteration

text \<open>The instrument is the function from the text of a query to the text of its reply; it
  answers the same query the same way for the duration of a call. A driver function yields
  its result, or the exception it raises, together with the traffic and the warnings it
  has caused, in order.\<close>

type_synonym switch = "string \<Rightarrow> string"
type_synonym 'a io = "(switch_error + 'a) \<times> io_event list"

definition return :: "'a \<Rightarrow> 'a io" where
  "return x = (Inr x, [])"

definition raise :: "switch_error \<Rightarrow> 'a io" where
  "raise e = (Inl e, [])"

definition bind :: "'a io \<Rightarrow> ('a \<Rightarrow> 'b io) \<Rightarrow> 'b io" where
  "bind m f =
     (case m of
        (Inl e, evs) \<Rightarrow> (Inl e, evs)
      | (Inr x, evs) \<Rightarrow> (case f x of (r, evs') \<Rightarrow> (r, evs @ evs')))"

fun map_io :: "('a \<Rightarrow> 'b io) \<Rightarrow> 'a list \<Rightarrow> 'b list io" where
  "map_io f [] = return []"
| "map_io f (x # xs) = bind (f x) (\<lambda>y. bind (map_io f xs) (\<lambda>ys. return (y # ys)))"

text \<open>The override of \<open>ask\<close> wraps every query in \<open>print()\<close>.\<close>

definition switch_ask :: "switch \<Rightarrow> string \<Rightarrow> string io" where
  "switch_ask dev cmd = (Inr (dev (''print('' @ cmd @ '')'')), [Ask (''print('' @ cmd @ '')'')])"

definition switch_write :: "string \<Rightarrow> unit io" where
  "switch_write cmd = (Inr (), [Write cmd])"

definition warn :: "string \<Rightarrow> unit io" where
  "warn msg = (Inr (), [Warning msg])"

text \<open>\<open>int(float(x))\<close> and \<open>int(x)\<close> of a reply; Python's \<open>float\<close> is a parameter.\<close>

definition int_float :: "(string \<Rightarrow> real option) \<Rightarrow> string \<Rightarrow> int io" where
  "int_float pyfloat x = (case pyfloat x of None \<Rightarrow> raise ValueError | Some r \<Rightarrow> return (py_int r))"

definition int_str :: "string \<Rightarrow> int io" where
  "int_str x = (if isdigit x then return (int (nat_of_digits x)) else raise ValueError)"

subsection \<open>Inventory\<close>

record card =
  slot_no :: string
  model :: string
  mtype :: string
  firmware :: string
  serial :: string

fun switch_cards_from :: "switch \<Rightarrow> nat list \<Rightarrow> card list io" where
  "switch_cards_from dev [] = return []"
| "switch_cards_from dev (i # is) =
     bind (switch_ask dev (''slot['' @ str_nat i @ ''].idn'')) (\<lambda>scard.
       if scard \<noteq> ''Empty Slot'' then
         (case map strip_str (py_split CHR '','' scard) of
            [mo, mt, fw, se] \<Rightarrow>
              bind (switch_cards_from dev is) (\<lambda>rest.
                return (\<lparr>slot_no = str_nat i, model = mo, mtype = mt, firmware = fw,
                          serial = se\<rparr> # rest))
          | _ \<Rightarrow> raise ValueError)
       else switch_cards_from dev is)"

definition get_switch_cards :: "switch \<Rightarrow> card list io" where
  "get_switch_cards dev = switch_cards_from dev [1, 2, 3, 4, 5, 6]"

definition get_slot_ids :: "switch \<Rightarrow> string list io" where
  "get_slot_ids dev = bind (get_switch_cards dev) (\<lambda>cards. return (map slot_no cards))"

definition get_slot_names :: "switch \<Rightarrow> string list io" where
  "get_slot_names dev = bind (get_slot_ids dev) (\<lambda>slot_id. return (map (\<lambda>x. ''slot'' @ x) slot_id))"

definition get_number_of_rows :: "(string \<Rightarrow> real option) \<Rightarrow> switch \<Rightarrow> int list io" where
  "get_number_of_rows pyfloat dev =
     bind (get_slot_ids dev) (\<lambda>slot_id.
       map_io (\<lambda>i. bind (switch_ask dev (''slot['' @ i @ ''].rows.matrix'')) (int_float pyfloat))
         slot_id)"

definition get_number_of_columns :: "(string \<Rightarrow> real option) \<Rightarrow> switch \<Rightarrow> int list io" where
  "get_number_of_columns pyfloat dev =
     bind (get_slot_ids dev) (\<lambda>slot_id.
       map_io (\<lambda>i. bind (switch_ask dev (''slot['' @ i @ ''].columns.matrix'')) (int_float pyfloat))
         slot_id)"

definition rows_in_slot :: "int \<Rightarrow> string list" where
  "rows_in_slot item = map str_int [1..item]"

definition column_name :: "int \<Rightarrow> string" where
  "column_name i = (if i < 10 then ''0'' @ str_int i else str_int i)"

definition columns_in_slot :: "int \<Rightarrow> string list" where
  "columns_in_slot item = map column_name [1..item]"

definition get_rows :: "(string \<Rightarrow> real option) \<Rightarrow> switch \<Rightarrow> string list list io" where
  "get_rows pyfloat dev =
     bind (get_number_of_rows pyfloat dev) (\<lambda>total. return (map rows_in_slot total))"

definition get_columns :: "(string \<Rightarrow> real option) \<Rightarrow> switch \<Rightarrow> string list list io" where
  "get_columns pyfloat dev =
     bind (get_number_of_columns pyfloat dev) (\<lambda>total. return (map columns_in_slot total))"

subsection \<open>Enumeration of the legal specifiers\<close>

text \<open>\<open>itertools.product(slot, rows, columns)\<close> with each triple joined: the first argument
  is a string and is iterated character by character.\<close>

definition product_join :: "string \<Rightarrow> string list \<Rightarrow> string list \<Rightarrow> string list" where
  "product_join slot rows columns = [c # r @ col. c \<leftarrow> slot, r \<leftarrow> rows, col \<leftarrow> columns]"

fun channels_loop ::
  "nat \<Rightarrow> string list \<Rightarrow> string list list \<Rightarrow> string list list \<Rightarrow> switch_error + string list" where
  "channels_loop i [] row_list column_list = Inr []"
| "channels_loop i (slot # rest) row_list column_list =
     (if i < length row_list \<and> i < length column_list then
        (case channels_loop (Suc i) rest row_list column_list of
           Inl e \<Rightarrow> Inl e
         | Inr others \<Rightarrow> Inr (product_join slot (row_list ! i) (column_list ! i) @ others))
      else Inl IndexError)"

definition get_channels :: "(string \<Rightarrow> real option) \<Rightarrow> switch \<Rightarrow> string list io" where
  "get_channels pyfloat dev =
     bind (get_slot_ids dev) (\<lambda>slot_id.
     bind (get_rows pyfloat dev) (\<lambda>row_list.
     bind (get_columns pyfloat dev) (\<lambda>column_list.
       case channels_loop 0 slot_id row_list column_list of
         Inl e \<Rightarrow> raise e
       | Inr matrix_channels \<Rightarrow> return matrix_channels)))"

definition get_channels_by_slot :: "(string \<Rightarrow> real option) \<Rightarrow> switch \<Rightarrow> int \<Rightarrow> string list io" where
  "get_channels_by_slot pyfloat dev slot_num =
     bind (get_slot_ids dev) (\<lambda>slot_id.
       if str_int slot_num \<notin> set slot_id then raise Keithley3706AUnknownOrEmptySlot
       else
         bind (get_rows pyfloat dev) (\<lambda>row_list.
         bind (get_columns pyfloat dev) (\<lambda>column_list.
           case (row_list, column_list) of
             (r0 # _, c0 # _) \<Rightarrow> return (product_join (str_int slot_num) r0 c0)
           | _ \<Rightarrow> raise IndexError)))"

text \<open>\<open>itertools.combinations(channel, 2)\<close>, each pair joined by a colon.\<close>

fun combinations2 :: "string list \<Rightarrow> string list" where
  "combinations2 [] = []"
| "combinations2 (x # xs) = map (\<lambda>y. x @ '':'' @ y) xs @ combinations2 xs"

definition get_channel_ranges :: "(string \<Rightarrow> real option) \<Rightarrow> switch \<Rightarrow> string list io" where
  "get_channel_ranges pyfloat dev =
     bind (get_slot_ids dev) (\<lambda>slot_id.
     bind (map_io (\<lambda>i. bind (int_str i) (\<lambda>n.
             bind (get_channels_by_slot pyfloat dev n) (\<lambda>chan.
               return (combinations2 chan)))) slot_id) (\<lambda>range_lists.
       return (concat range_lists)))"

definition get_analog_backplane_specifiers :: "switch \<Rightarrow> string list io" where
  "get_analog_backplane_specifiers dev =
     bind (get_slot_ids dev) (\<lambda>slot_id.
       return [s @ b # r. s \<leftarrow> slot_id, b \<leftarrow> ''9'',
                 r \<leftarrow> [''11'', ''12'', ''13'', ''14'', ''15'', ''16'']])"

text \<open>\<open>_validator\<close>: the tuple \<open>(*ch, *ch_range, *slots, *backplanes)\<close>, then the loop over
  the comma-separated elements with its early return.\<close>

definition legal_specifiers :: "(string \<Rightarrow> real option) \<Rightarrow> switch \<Rightarrow> string list io" where
  "legal_specifiers pyfloat dev =
     bind (get_channels pyfloat dev) (\<lambda>ch.
     bind (get_channel_ranges pyfloat dev) (\<lambda>ch_range.
     bind (get_slot_names dev) (\<lambda>names.
     bind (get_analog_backplane_specifiers dev) (\<lambda>backplanes.
       return (ch @ ch_range @ (''allslots'' # names) @ backplanes)))))"

fun all_legal :: "string list \<Rightarrow> string list \<Rightarrow> bool" where
  "all_legal legal [] = True"
| "all_legal legal (element # rest) =
     (if element \<notin> set legal then False else all_legal legal rest)"

definition validator :: "(string \<Rightarrow> real option) \<Rightarrow> switch \<Rightarrow> string \<Rightarrow> bool io" where
  "validator pyfloat dev val =
     bind (legal_specifiers pyfloat dev) (\<lambda>legal.
       return (all_legal legal (py_split CHR '','' val)))"

subsection \<open>Interlocks\<close>

definition disengaged :: string where
  "disengaged = ''Interlocks 1 and 2 are disengaged on the card''"

definition interlock_status :: "int option \<Rightarrow> string io" where
  "interlock_status state =
     (if state = None then
        return ''No card is installed or the installed card does not support interlocks''
      else if state = Some 0 then return disengaged
      else if state = Some 1 then
        return ''Interlock 1 is engaged, interlock 2 (if it exists) is disengaged''
      else if state = Some 2 then return ''Interlock 2 in engaged, interlock 1 is disengaged''
      else if state = Some 3 then return ''Both interlock 1 and 2 are engaged''
      else raise KeyError)"

definition get_interlock_state_by_slot ::
  "(string \<Rightarrow> real option) \<Rightarrow> switch \<Rightarrow> string \<Rightarrow> int option io" where
  "get_interlock_state_by_slot pyfloat dev slot =
     bind (int_str slot) (\<lambda>n.
     bind (switch_ask dev (''slot['' @ str_int n @ ''].interlock.state'')) (\<lambda>state.
       if state = ''nil'' then return None
       else bind (int_float pyfloat state) (\<lambda>v. return (Some v))))"

definition get_interlock_state ::
  "(string \<Rightarrow> real option) \<Rightarrow> switch \<Rightarrow> (string \<times> string) list io" where
  "get_interlock_state pyfloat dev =
     bind (get_slot_ids dev) (\<lambda>slot_id.
       map_io (\<lambda>i. bind (get_interlock_state_by_slot pyfloat dev i) (\<lambda>state.
                 bind (interlock_status state) (\<lambda>text. return (i, text)))) slot_id)"

definition is_backplane_channel :: "string \<Rightarrow> bool io" where
  "is_backplane_channel channel_id =
     (if length channel_id \<noteq> 4 then raise Keithley3706AInvalidValue
      else if channel_id ! 1 = CHR ''9'' then return True
      else return False)"

definition interlock_warning :: "string \<Rightarrow> string \<Rightarrow> string" where
  "interlock_warning slot chan =
     ''The hardware interlocks in Slot '' @ slot @ '' are disengaged. '' @
     ''The analog backplane relay '' @ chan @ '' cannot be energized.''"

fun warn_loop :: "(string \<times> string) list \<Rightarrow> string list \<Rightarrow> unit io" where
  "warn_loop states [] = return ()"
| "warn_loop states (chan # rest) =
     bind (is_backplane_channel chan) (\<lambda>b.
       if b then
         (let slot = [chan ! 0] in
          case find (\<lambda>state. fst state = slot) states of
            None \<Rightarrow> raise StopIteration
          | Some interlock_state \<Rightarrow>
              bind (if snd interlock_state = disengaged
                    then warn (interlock_warning (fst interlock_state) chan)
                    else return ()) (\<lambda>_. warn_loop states rest))
       else warn_loop states rest)"

definition warn_on_disengaged_interlocks ::
  "(string \<Rightarrow> real option) \<Rightarrow> switch \<Rightarrow> string \<Rightarrow> unit io" where
  "warn_on_disengaged_interlocks pyfloat dev val =
     bind (get_interlock_state pyfloat dev) (\<lambda>states.
       warn_loop states (py_split CHR '','' val))"

subsection \<open>Channel operations\<close>

definition get_forbidden_channels :: "(string \<Rightarrow> real option) \<Rightarrow> switch \<Rightarrow> string \<Rightarrow> string io" where
  "get_forbidden_channels pyfloat dev val =
     bind (validator pyfloat dev val) (\<lambda>ok.
       if \<not> ok then raise Keithley3706AInvalidValue
       else switch_ask dev (''channel.getforbidden('' @ [CHR 0x27] @ val @ [CHR 0x27] @ '')''))"

definition forbidden_warning :: string where
  "forbidden_warning = ''You are attempting to close channels that are forbidden to close.''"

definition close_channel :: "(string \<Rightarrow> real option) \<Rightarrow> switch \<Rightarrow> string \<Rightarrow> unit io" where
  "close_channel pyfloat dev val =
     bind (get_slot_names dev) (\<lambda>names.
     bind (get_forbidden_channels pyfloat dev ''allslots'') (\<lambda>forbidden_channels.
       if val \<in> set (''allslots'' # names) then raise Keithley3706AInvalidValue
       else
         bind (validator pyfloat dev val) (\<lambda>ok.
           if \<not> ok then raise Keithley3706AInvalidValue
           else
             bind (if val \<in> set (py_split CHR '','' forbidden_channels)
                   then warn forbidden_warning else return ()) (\<lambda>_.
             bind (warn_on_disengaged_interlocks pyfloat dev val) (\<lambda>_.
               switch_write (''channel.close('' @ [CHR 0x27] @ val @ [CHR 0x27] @ '')''))))))"

subsection \<open>The inventory and the specifiers it admits\<close>

text \<open>\<open>inventory\<close> holds when the inventory queries succeed with the given slot ids and
  row and column counts. The lists below are what the enumeration functions of the code
  then return: the matrix channels of every card, the slot specifiers, the analog backplane
  relays, and \<open>code_channel_ranges\<close>, the result of \<open>_get_channel_ranges\<close>, which pairs the
  channels \<open>get_channels_by_slot\<close> returns and so takes the rows and columns of the first
  card (\<open>row_list[0]\<close>, \<open>column_list[0]\<close>) for every slot.\<close>

definition inventory ::
  "(string \<Rightarrow> real option) \<Rightarrow> switch \<Rightarrow> string list \<Rightarrow> int list \<Rightarrow> int list \<Rightarrow> bool" where
  "inventory pyfloat dev ids nrows ncols \<longleftrightarrow>
     fst (get_slot_ids dev) = Inr ids \<and>
     fst (get_number_of_rows pyfloat dev) = Inr nrows \<and>
     fst (get_number_of_columns pyfloat dev) = Inr ncols"

definition matrix_channels :: "string list \<Rightarrow> int list \<Rightarrow> int list \<Rightarrow> string list" where
  "matrix_channels ids nrows ncols =
     concat (map (\<lambda>(s, r, c). product_join s (rows_in_slot r) (columns_in_slot c))
               (zip ids (zip nrows ncols)))"

definition code_channel_ranges :: "string list \<Rightarrow> int list \<Rightarrow> int list \<Rightarrow> string list" where
  "code_channel_ranges ids nrows ncols =
     concat (map (\<lambda>s. combinations2
                         (product_join s (rows_in_slot (hd nrows)) (columns_in_slot (hd ncols))))
               ids)"

definition backplane_relays :: "string list \<Rightarrow> string list" where
  "backplane_relays ids =
     [s @ CHR ''9'' # r. s \<leftarrow> ids, r \<leftarrow> [''11'', ''12'', ''13'', ''14'', ''15'', ''16'']]"

definition slot_specifiers :: "string list \<Rightarrow> string list" where
  "slot_specifiers ids = ''allslots'' # map (\<lambda>x. ''slot'' @ x) ids"

definition code_legal_set :: "string list \<Rightarrow> int list \<Rightarrow> int list \<Rightarrow> string list" where
  "code_legal_set ids nrows ncols =
     matrix_channels ids nrows ncols @ code_channel_ranges ids nrows ncols @
     slot_specifiers ids @ backplane_relays ids"

text \<open>The warnings \<open>_warn_on_disengaged_interlocks\<close> emits for a list of 4-character
  ids: one for each id classified as a backplane relay whose slot is disengaged.\<close>

definition interlock_warnings :: "(string \<times> string) list \<Rightarrow> string list \<Rightarrow> io_event list" where
  "interlock_warnings states xs =
     concat (map (\<lambda>e. if e ! 1 = CHR ''9'' \<and> map_of states [e ! 0] = Some disengaged
                       then [Warning (interlock_warning [e ! 0] e)] else []) xs)"

subsection \<open>Traces\<close>

text \<open>Traffic that changes the instrument: the writes. \<open>fails_before_write\<close> holds of a
  call that, when it ends in an exception, has sent queries and warnings only.\<close>

fun is_write :: "io_event \<Rightarrow> bool" where
  "is_write (Write _) = True"
| "is_write _ = False"

definition no_write :: "io_event list \<Rightarrow> bool" where
  "no_write evs = list_all (\<lambda>ev. \<not> is_write ev) evs"

definition fails_before_write :: "'a io \<Rightarrow> bool" where
  "fails_before_write m \<longleftrightarrow> (\<forall>e. fst m = Inl e \<longrightarrow> no_write (snd m))"

text \<open>The reply to the query of the forbidden list that \<open>close_channel\<close> makes, and the
  command it sends in the end.\<close>

definition forbidden_reply :: "switch \<Rightarrow> string" where
  "forbidden_reply dev =
     dev (''print(channel.getforbidden('' @ [CHR 0x27] @ ''allslots'' @ [CHR 0x27] @ ''))'')"

definition close_command :: "string \<Rightarrow> string" where
  "close_command val = ''channel.close('' @ [CHR 0x27] @ val @ [CHR 0x27] @ '')''"

subsection \<open>The specifiers of the specification\<close>

text \<open>The specifiers as the specification describes them: a channel range joins two
  channels of one slot, and the channels of a slot are built from that slot's own row and
  column counts.\<close>

definition spec_channel_ranges :: "string list \<Rightarrow> int list \<Rightarrow> int list \<Rightarrow> string list" where
  "spec_channel_ranges ids nrows ncols =
     concat (map (\<lambda>(s, r, c). combinations2 (product_join s (rows_in_slot r) (columns_in_slot c)))
               (zip ids (zip nrows ncols)))"

definition spec_legal_set :: "string list \<Rightarrow> int list \<Rightarrow> int list \<Rightarrow> string list" where
  "spec_legal_set ids nrows ncols =
     matrix_channels ids nrows ncols @ spec_channel_ranges ids nrows ncols @
     slot_specifiers ids @ backplane_relays ids"

text \<open>Traffic that consists of queries alone.\<close>

fun is_ask :: "io_event \<Rightarrow> bool" where
  "is_ask (Ask _) = True"
| "is_ask _ = False"

definition only_asks :: "io_event list \<Rightarrow> bool" where
  "only_asks evs = list_all is_ask evs"

subsection \<open>The other operations\<close>









text \<open>The loop \<open>for element in specifiers: if element in backplanes: raise\<close>.\<close>

fun reject_backplanes :: "string list \<Rightarrow> string list \<Rightarrow> unit io" where
  "reject_backplanes backplanes [] = return ()"
| "reject_backplanes backplanes (element # rest) =
     (if element \<in> set backplanes then raise Keithley3706AInvalidValue
      else reject_backplanes backplanes rest)"




definition slot_warning :: "string \<Rightarrow> string" where
  "slot_warning slot =
     ''The hardware interlocks in Slot '' @ slot @ '' are disengaged. '' @
     ''The corresponding analog backplane relays cannot be energized.''"

fun warn_slots :: "(string \<times> string) list \<Rightarrow> unit io" where
  "warn_slots [] = return ()"
| "warn_slots (element # rest) =
     bind (if snd element = disengaged then warn (slot_warning (fst element)) else return ())
       (\<lambda>_. warn_slots rest)"

fun require_backplanes :: "string list \<Rightarrow> string list \<Rightarrow> unit io" where
  "require_backplanes backplanes [] = return ()"
| "require_backplanes backplanes (plane # rest) =
     (if plane \<notin> set backplanes then raise Keithley3706AInvalidValue
      else require_backplanes backplanes rest)"







subsection \<open>Example instruments\<close>

text \<open>A block declaring three bytes, the payload \<open>0x41 0x00 0xFF\<close> and a newline; an
  instrument that never becomes idle, one that is idle at the third status query, one that
  answers the preamble query; a scope that has been prepared.\<close>

definition demo_block :: bytes where
  "demo_block = [0x23, 0x39, 0x30, 0x30, 0x30, 0x30, 0x30, 0x30, 0x30, 0x30, 0x33,
                 0x41, 0x00, 0xFF, 0x0A]"

definition demo_busy :: instrument where
  "demo_busy = \<lparr>ask_reply = (\<lambda>_. ''READ,100''), read_reply = (\<lambda>_. demo_block)\<rparr>"

definition demo_idle :: instrument where
  "demo_idle = \<lparr>ask_reply = (\<lambda>i. if i = 2 then ''IDLE,0'' else ''READ,100''),
                 read_reply = (\<lambda>_. demo_block)\<rparr>"

definition demo_scope :: instrument where
  "demo_scope = \<lparr>ask_reply = (\<lambda>_. ''0,2,3,1,1,0,0,2,0,100'' @ [CHR 0x0A]),
                  read_reply = (\<lambda>_. demo_block)\<rparr>"

definition demo_ready :: "bool \<Rightarrow> scope_array" where
  "demo_ready rw = (init 1 rw)\<lparr>trace_ready := True,
     preamble := PreambleNT [0, 2, 3, 1, 1, 0, 0, 2, 0, 100]\<rparr>"

text \<open>A switch with one card in slot 1 whose row count, column count and interlock state
  are the given replies, and a \<open>float\<close> that reads digit strings.\<close>

definition demo_float :: "string \<Rightarrow> real option" where
  "demo_float x = (if isdigit x then Some (real (nat_of_digits x)) else None)"

definition demo_switch :: "string \<Rightarrow> string \<Rightarrow> string \<Rightarrow> switch" where
  "demo_switch r c st cmd =
     (if cmd = ''print(slot[1].idn)'' then ''3730,6x16 High Density Matrix,01.40h,4096207''
      else if cmd = ''print(slot[1].rows.matrix)'' then r
      else if cmd = ''print(slot[1].columns.matrix)'' then c
      else if cmd = ''print(slot[1].interlock.state)'' then st
      else if cmd = ''print(channel.getforbidden('' @ [CHR 0x27] @ ''allslots'' @ [CHR 0x27] @ ''))''
        then ''1101,1911''
      else ''Empty Slot'')"

text \<open>A switch with cards in slots 1 and 2 whose row and column counts are the given
  replies.\<close>

definition demo_two_cards :: "string \<Rightarrow> string \<Rightarrow> string \<Rightarrow> string \<Rightarrow> switch" where
  "demo_two_cards r1 c1 r2 c2 cmd =
     (if cmd = ''print(slot[1].idn)'' then ''3730,6x16 High Density Matrix,01.40h,4096207''
      else if cmd = ''print(slot[2].idn)'' then ''3730,6x16 High Density Matrix,01.40h,4096208''
      else if cmd = ''print(slot[1].rows.matrix)'' then r1
      else if cmd = ''print(slot[1].columns.matrix)'' then c1
      else if cmd = ''print(slot[2].rows.matrix)'' then r2
      else if cmd = ''print(slot[2].columns.matrix)'' then c2
      else ''Empty Slot'')"

section \<open>Properties of the waveform capture path\<close>

lemma py_split_not_Nil: "py_split sep s \<noteq> []"
  by (induction s) (auto split: list.splits)

lemma strip_bytes_id:
  assumes "bs = [] \<or> (\<not> is_space_byte (hd bs) \<and> \<not> is_space_byte (last bs))"
      and "list_all is_space_byte ws"
  shows "strip_bytes (bs @ ws) = bs"
proof (cases "bs = []")
  case True
  with assms(2) show ?thesis
    by (auto simp: strip_bytes_def list_all_iff dest: set_dropWhileD)
next
  case False
  with assms(1) have h: "\<not> is_space_byte (hd bs)" and l: "\<not> is_space_byte (last bs)" by auto
  from False h have "dropWhile is_space_byte (bs @ ws) = bs @ ws"
    by (cases bs) auto
  moreover have "dropWhile is_space_byte (rev ws @ rev bs) = rev bs"
    using assms(2) False l
    by (simp add: dropWhile_append list_all_iff dropWhile_eq_Nil_conv hd_rev) (metis dropWhile_eq_self_iff hd_rev rev_is_Nil_conv)
  ultimately show ?thesis by (simp add: strip_bytes_def)
qed

lemma digit_byte_ascii: "is_digit_byte b \<Longrightarrow> \<not> 0x80 \<le> b"
  unfolding is_digit_byte_def by unat_arith

lemma header_matches_ascii:
  assumes "header_matches h"
  shows "\<not> list_ex (\<lambda>b. 0x80 \<le> b) h"
proof -
  from assms have h: "h = [0x23, 0x39] @ drop 2 h" and d: "list_all is_digit_byte (drop 2 h)"
    unfolding header_matches_def by (metis append_take_drop_id, simp)
  have "\<not> list_ex (\<lambda>b. 0x80 \<le> b) (drop 2 h)"
    using d digit_byte_ascii by (auto simp: list_all_iff list_ex_iff)
  moreover have "\<not> list_ex (\<lambda>b::byte. 0x80 \<le> b) [0x23, 0x39]" by simp
  ultimately show ?thesis by (subst h) (simp only: list_ex_append, simp)
qed

lemma validate_strip_block_roundtrip:
  assumes "header_matches h"
      and "int_of_digit_bytes (drop 2 h) = length payload"
      and "payload = [] \<or> (\<not> is_space_byte (hd payload) \<and> \<not> is_space_byte (last payload))"
      and "list_all is_space_byte ws"
  shows "validate_strip_block (h @ payload @ ws) = Inr payload"
proof -
  from assms(1) have len: "length h = 11" by (simp add: header_matches_def)
  then have t: "take 11 (h @ payload @ ws) = h" and d: "drop 11 (h @ payload @ ws) = payload @ ws"
    by simp_all
  show ?thesis
    unfolding validate_strip_block_def t d Let_def
    using assms header_matches_ascii [OF assms(1)] strip_bytes_id [OF assms(3,4)]
    by simp
qed

lemma validate_strip_block_mismatch:
  assumes "header_matches (take 11 block)"
      and "int_of_digit_bytes (drop 2 (take 11 block)) \<noteq> length (strip_bytes (drop 11 block))"
  shows "validate_strip_block block = Inl Malformed_data"
  unfolding validate_strip_block_def Let_def
  using assms header_matches_ascii [OF assms(1)] by simp

lemma validate_strip_block_no_header:
  "\<not> header_matches (take 11 block) \<Longrightarrow> validate_strip_block block \<noteq> Inr b"
  unfolding validate_strip_block_def Let_def by simp

text \<open>
  C1. A block with the header \<open>#9\<close>, nine digits declaring the body length N, a payload
  of exactly N bytes and trailing whitespace should give the payload back. The code strips
  whitespace bytes from both ends of the body, so a payload whose first sample is the byte
  0x20 loses it and is rejected: the block \<open>#9000000002\<close>, payload \<open>0x20 0x41\<close>,
  newline, is answered with the malformed-data error although the sizes match.
\<close>

theorem validate_strip_block_leading_space:
  "validate_strip_block
     [0x23, 0x39, 0x30, 0x30, 0x30, 0x30, 0x30, 0x30, 0x30, 0x30, 0x32, 0x20, 0x41, 0x0A]
   = Inl Malformed_data"
  by (simp add: validate_strip_block_def header_matches_def is_digit_byte_def
      int_of_digit_bytes_def strip_bytes_def is_space_byte_def)

lemma instrument_write_fields [simp]:
  "trace_ready (instrument_write c s) = trace_ready s"
  "preamble (instrument_write c s) = preamble s"
  "n_asks (instrument_write c s) = n_asks s"
  "n_reads (instrument_write c s) = n_reads s"
  "raw (instrument_write c s) = raw s"
  "max_read_step (instrument_write c s) = max_read_step s"
  "shape (instrument_write c s) = shape s"
  "channel (instrument_write c s) = channel s"
  "io_log (instrument_write c s) = io_log s @ [Write c]"
  by (simp_all add: instrument_write_def)

lemma instrument_ask_fields [simp]:
  "fst (instrument_ask dev c s) = ask_reply dev (n_asks s)"
  "trace_ready (snd (instrument_ask dev c s)) = trace_ready s"
  "preamble (snd (instrument_ask dev c s)) = preamble s"
  "n_asks (snd (instrument_ask dev c s)) = Suc (n_asks s)"
  "n_reads (snd (instrument_ask dev c s)) = n_reads s"
  "raw (snd (instrument_ask dev c s)) = raw s"
  "io_log (snd (instrument_ask dev c s)) = io_log s @ [Ask c]"
  by (simp_all add: instrument_ask_def)

lemma read_raw_fields [simp]:
  "fst (read_raw dev s) = read_reply dev (n_reads s)"
  "trace_ready (snd (read_raw dev s)) = trace_ready s"
  "preamble (snd (read_raw dev s)) = preamble s"
  "n_asks (snd (read_raw dev s)) = n_asks s"
  "n_reads (snd (read_raw dev s)) = Suc (n_reads s)"
  "io_log (snd (read_raw dev s)) = io_log s @ [Read_raw]"
  by (simp_all add: read_raw_def)

lemma read_loop_keeps:
  "trace_ready (snd (read_loop dev n s acc)) = trace_ready s \<and>
   preamble (snd (read_loop dev n s acc)) = preamble s"
  by (induction n arbitrary: s acc)
     (auto simp: Let_def split_beta split: sum.splits)

lemma read_data_keeps:
  "trace_ready (snd (read_data dev s)) = trace_ready s \<and>
   preamble (snd (read_data dev s)) = preamble s"
  by (auto simp: read_data_def Let_def split_beta read_loop_keeps split: sum.splits)

lemma get_raw_ready:
  "trace_ready s \<Longrightarrow> get_raw dev s =
     (case fst (read_data dev (begin_read s)) of
        Inl e \<Rightarrow> (Inl e, snd (read_data dev (begin_read s)))
      | Inr data_bin \<Rightarrow>
          (case preamble s of
             None \<Rightarrow> (Inl Preamble_AttributeError, snd (read_data dev (begin_read s)))
           | Some p \<Rightarrow> (Inr (to_volts p data_bin), snd (read_data dev (begin_read s)))))"
proof -
  obtain r s3 where rd: "read_data dev (begin_read s) = (r, s3)"
    by (cases "read_data dev (begin_read s)")
  have "preamble s3 = preamble (begin_read s)"
    using read_data_keeps [of dev "begin_read s"] rd by simp
  then have p: "preamble s3 = preamble s"
    by (simp add: begin_read_def)
  assume "trace_ready s"
  then have "get_raw dev s =
     (case read_data dev (begin_read s) of
        (Inl e, s3) \<Rightarrow> (Inl e, s3)
      | (Inr data_bin, s3) \<Rightarrow>
          (case preamble s3 of
             None \<Rightarrow> (Inl Preamble_AttributeError, s3)
           | Some p \<Rightarrow> (Inr (to_volts p data_bin), s3)))"
    by (simp add: get_raw_def begin_read_def Let_def)
  then show ?thesis
    by (simp add: rd p split: sum.splits option.splits)
qed

lemma get_raw_consumes: "\<not> trace_ready (snd (get_raw dev s))"
proof (cases "trace_ready s")
  case False
  then show ?thesis by (simp add: get_raw_def)
next
  case True
  have "\<not> trace_ready (snd (read_data dev (begin_read s)))"
    using read_data_keeps [of dev "begin_read s"] by (simp add: begin_read_def)
  then show ?thesis
    by (simp add: get_raw_ready [OF True] split: sum.splits option.splits)
qed

lemma read_loop_Suc:
  "read_loop dev (Suc n) s acc =
     (let s3 = snd (read_raw dev (instrument_write '':WAVeform:DATA?''
                 (snd (instrument_ask dev '':WAVeform:STATus?'' s))))
      in case chunk_at dev s 0 of
           Inl e \<Rightarrow> (Inl e, s3)
         | Inr c \<Rightarrow>
             if status_at dev s 0 = ''IDLE''
             then (Inr (acc @ c), instrument_write '':WAVeform:END'' s3)
             else read_loop dev n s3 (acc @ c))"
  by (simp add: Let_def split_beta status_at_def chunk_at_def split: sum.splits)

lemma shift_at:
  assumes "n_asks t = Suc (n_asks s)" "n_reads t = Suc (n_reads s)"
  shows "status_at dev t i = status_at dev s (Suc i)" "chunk_at dev t i = chunk_at dev s (Suc i)"
  using assms by (simp_all add: status_at_def chunk_at_def)

lemma read_loop_counts:
  "n_asks (snd (read_loop dev n s acc)) \<le> n_asks s + n \<and>
   n_reads (snd (read_loop dev n s acc)) \<le> n_reads s + n"
proof (induction n arbitrary: s acc)
  case 0
  show ?case by simp
next
  case (Suc n)
  let ?s3 = "snd (read_raw dev (instrument_write '':WAVeform:DATA?''
                 (snd (instrument_ask dev '':WAVeform:STATus?'' s))))"
  have c: "n_asks ?s3 = Suc (n_asks s)" "n_reads ?s3 = Suc (n_reads s)" by simp_all
  show ?case
    using Suc.IH [of ?s3] c
    by (simp add: read_loop_Suc Let_def del: read_loop.simps split: sum.splits)
qed

lemma read_loop_idle:
  assumes "k < n"
      and "\<forall>i<k. status_at dev s i \<noteq> ''IDLE''"
      and "status_at dev s k = ''IDLE''"
      and "\<forall>i\<le>k. chunk_at dev s i = Inr (c i)"
  shows "fst (read_loop dev n s acc) = Inr (acc @ concat (map c [0..<Suc k])) \<and>
         n_asks (snd (read_loop dev n s acc)) = n_asks s + Suc k \<and>
         n_reads (snd (read_loop dev n s acc)) = n_reads s + Suc k"
  using assms
proof (induction n arbitrary: s acc k c)
  case 0
  then show ?case by simp
next
  case (Suc n)
  let ?s3 = "snd (read_raw dev (instrument_write '':WAVeform:DATA?''
                 (snd (instrument_ask dev '':WAVeform:STATus?'' s))))"
  have cnt: "n_asks ?s3 = Suc (n_asks s)" "n_reads ?s3 = Suc (n_reads s)" by simp_all
  from Suc.prems(4) have c0: "chunk_at dev s 0 = Inr (c 0)" by simp
  show ?case
  proof (cases k)
    case 0
    with Suc.prems(3) c0 show ?thesis
      by (simp add: read_loop_Suc Let_def del: read_loop.simps)
  next
    case (Suc j)
    with Suc.prems(2) have ni: "status_at dev s 0 \<noteq> ''IDLE''" by simp
    have a: "j < n" using Suc.prems(1) Suc by simp
    have b: "\<forall>i<j. status_at dev ?s3 i \<noteq> ''IDLE''"
      using Suc.prems(2) Suc by (simp add: shift_at [OF cnt])
    have d: "status_at dev ?s3 j = ''IDLE''"
      using Suc.prems(3) Suc by (simp add: shift_at [OF cnt])
    have e: "\<forall>i\<le>j. chunk_at dev ?s3 i = Inr (c (Suc i))"
      using Suc.prems(4) Suc by (simp add: shift_at [OF cnt])
    have "[0..<Suc (Suc j)] = 0 # map Suc [0..<Suc j]"
      by (subst upt_rec) (simp add: map_Suc_upt del: upt_Suc)
    then have m: "concat (map c [0..<Suc k]) = c 0 @ concat (map (\<lambda>i. c (Suc i)) [0..<Suc j])"
      unfolding Suc by (simp add: o_def del: upt_Suc)
    show ?thesis
      using Suc.IH [OF a b d, of "\<lambda>i. c (Suc i)" "acc @ c 0", OF e] ni c0 cnt m Suc
      by (simp add: read_loop_Suc Let_def del: read_loop.simps upt_Suc)
  qed
qed

lemma read_loop_never_idle:
  assumes "\<forall>i<n. status_at dev s i \<noteq> ''IDLE''"
  shows "\<exists>e. fst (read_loop dev n s acc) = Inl e"
  using assms
proof (induction n arbitrary: s acc)
  case 0
  show ?case by simp
next
  case (Suc n)
  let ?s3 = "snd (read_raw dev (instrument_write '':WAVeform:DATA?''
                 (snd (instrument_ask dev '':WAVeform:STATus?'' s))))"
  have cnt: "n_asks ?s3 = Suc (n_asks s)" "n_reads ?s3 = Suc (n_reads s)" by simp_all
  from Suc.prems have ni: "status_at dev s 0 \<noteq> ''IDLE''" by simp
  have b: "\<forall>i<n. status_at dev ?s3 i \<noteq> ''IDLE''"
    using Suc.prems by (simp add: shift_at [OF cnt])
  show ?case
    using Suc.IH [OF b] ni
    by (simp add: read_loop_Suc Let_def del: read_loop.simps split: sum.splits)
qed

lemma read_loop_exhausted:
  assumes "\<forall>i<n. status_at dev s i \<noteq> ''IDLE'' \<and> (\<exists>c. chunk_at dev s i = Inr c)"
  shows "fst (read_loop dev n s acc) = Inl Communication_error \<and>
         n_asks (snd (read_loop dev n s acc)) = n_asks s + n \<and>
         n_reads (snd (read_loop dev n s acc)) = n_reads s + n"
  using assms
proof (induction n arbitrary: s acc)
  case 0
  show ?case by simp
next
  case (Suc n)
  let ?s3 = "snd (read_raw dev (instrument_write '':WAVeform:DATA?''
                 (snd (instrument_ask dev '':WAVeform:STATus?'' s))))"
  have cnt: "n_asks ?s3 = Suc (n_asks s)" "n_reads ?s3 = Suc (n_reads s)" by simp_all
  from Suc.prems have ni: "status_at dev s 0 \<noteq> ''IDLE''" by simp
  from Suc.prems obtain c0 where c0: "chunk_at dev s 0 = Inr c0" by auto
  have b: "\<forall>i<n. status_at dev ?s3 i \<noteq> ''IDLE'' \<and> (\<exists>c. chunk_at dev ?s3 i = Inr c)"
    using Suc.prems by (simp add: shift_at [OF cnt])
  show ?case
    using Suc.IH [OF b, of "acc @ c0"] ni c0 cnt
    by (simp add: read_loop_Suc Let_def del: read_loop.simps)
qed


lemma at_cong:
  "n_asks t = n_asks s \<Longrightarrow> status_at dev t = status_at dev s"
  "n_reads t = n_reads s \<Longrightarrow> chunk_at dev t = chunk_at dev s"
  by (auto simp: status_at_def chunk_at_def fun_eq_iff)

lemma begin_read_fields [simp]:
  "n_asks (begin_read s) = n_asks s"
  "n_reads (begin_read s) = n_reads s"
  "raw (begin_read s) = raw s"
  "max_read_step (begin_read s) = max_read_step s"
  "preamble (begin_read s) = preamble s"
  "shape (begin_read s) = shape s"
  by (simp_all add: begin_read_def)

lemma read_data_raw:
  "raw s \<Longrightarrow> read_data dev (begin_read s) =
     read_loop dev (max_read_step s)
       (instrument_write '':WAVeform:BEGin'' (instrument_write '':WAVeform:RESet''
         (instrument_write ('':WAVeform:POINts '' @ str_nat (shape s)) (begin_read s)))) []"
  by (simp add: read_data_def Let_def)

lemma get_raw_fst:
  "trace_ready s \<Longrightarrow> preamble s = Some p \<Longrightarrow>
   fst (get_raw dev s) = map_sum id (to_volts p) (fst (read_data dev (begin_read s))) \<and>
   snd (get_raw dev s) = snd (read_data dev (begin_read s))"
  by (simp add: get_raw_ready split: sum.splits)

text \<open>
  C3. In raw mode with \<open>max_read_step = 50\<close> the loop of \<open>get_raw\<close> makes at most 50
  iterations, each with one status query and one block read. If the status is IDLE for the
  first time in iteration k < 50 and the blocks read up to then are well-formed, the call
  succeeds after exactly k + 1 iterations with the conversion of the concatenated payloads.
  If none of the 50 status replies is IDLE the call ends in an error and returns no data;
  with well-formed blocks the error is the communication error, after exactly 50 iterations.
\<close>

theorem get_raw_polling_loop:
  assumes "raw s" and "trace_ready s" and "max_read_step s = 50" and "preamble s = Some p"
  shows
   "n_asks (snd (get_raw dev s)) \<le> n_asks s + 50 \<and>
    n_reads (snd (get_raw dev s)) \<le> n_reads s + 50 \<and>
    (\<forall>k c. k < 50 \<and> (\<forall>i<k. status_at dev s i \<noteq> ''IDLE'') \<and> status_at dev s k = ''IDLE'' \<and>
           (\<forall>i\<le>k. chunk_at dev s i = Inr (c i)) \<longrightarrow>
       fst (get_raw dev s) = Inr (to_volts p (concat (map c [0..<Suc k]))) \<and>
       n_asks (snd (get_raw dev s)) = n_asks s + Suc k \<and>
       n_reads (snd (get_raw dev s)) = n_reads s + Suc k) \<and>
    ((\<forall>i<50. status_at dev s i \<noteq> ''IDLE'') \<longrightarrow> (\<exists>e. fst (get_raw dev s) = Inl e)) \<and>
    ((\<forall>i<50. status_at dev s i \<noteq> ''IDLE'' \<and> (\<exists>c. chunk_at dev s i = Inr c)) \<longrightarrow>
       fst (get_raw dev s) = Inl Communication_error \<and>
       n_asks (snd (get_raw dev s)) = n_asks s + 50 \<and>
       n_reads (snd (get_raw dev s)) = n_reads s + 50)"
proof -
  let ?t = "instrument_write '':WAVeform:BEGin'' (instrument_write '':WAVeform:RESet''
         (instrument_write ('':WAVeform:POINts '' @ str_nat (shape s)) (begin_read s)))"
  have rd: "read_data dev (begin_read s) = read_loop dev 50 ?t []"
    using read_data_raw [OF assms(1), of dev] assms(3) by simp
  have na: "n_asks ?t = n_asks s" and nr: "n_reads ?t = n_reads s" by simp_all
  have st: "status_at dev ?t = status_at dev s" and ch: "chunk_at dev ?t = chunk_at dev s"
    using at_cong [of ?t s dev] na nr by simp_all
  note g = get_raw_fst [OF assms(2,4), of dev, unfolded rd]
  have 1: "n_asks (snd (get_raw dev s)) \<le> n_asks s + 50 \<and>
           n_reads (snd (get_raw dev s)) \<le> n_reads s + 50"
    using read_loop_counts [of dev 50 ?t "[]"] g na nr by simp
  have 2: "fst (get_raw dev s) = Inr (to_volts p (concat (map c [0..<Suc k]))) \<and>
       n_asks (snd (get_raw dev s)) = n_asks s + Suc k \<and>
       n_reads (snd (get_raw dev s)) = n_reads s + Suc k"
    if "k < 50" "\<forall>i<k. status_at dev s i \<noteq> ''IDLE''" "status_at dev s k = ''IDLE''"
       "\<forall>i\<le>k. chunk_at dev s i = Inr (c i)" for k c
    using read_loop_idle [of k 50 dev ?t c "[]"] that g na nr unfolding st ch by simp
  have 3: "\<exists>e. fst (get_raw dev s) = Inl e" if "\<forall>i<50. status_at dev s i \<noteq> ''IDLE''"
    using read_loop_never_idle [of 50 dev ?t "[]"] that g unfolding st by auto
  have 4: "fst (get_raw dev s) = Inl Communication_error \<and>
       n_asks (snd (get_raw dev s)) = n_asks s + 50 \<and>
       n_reads (snd (get_raw dev s)) = n_reads s + 50"
    if "\<forall>i<50. status_at dev s i \<noteq> ''IDLE'' \<and> (\<exists>c. chunk_at dev s i = Inr c)"
    using read_loop_exhausted [of 50 dev ?t "[]"] that g na nr unfolding st ch by simp
  from 1 2 3 4 show ?thesis by blast
qed

lemma get_raw_Inr:
  assumes "get_raw dev s = (Inr v, s')"
  shows "\<exists>p data_bin. trace_ready s \<and> preamble s = Some p \<and>
           fst (read_data dev (begin_read s)) = Inr data_bin \<and> v = to_volts p data_bin"
proof -
  have tr: "trace_ready s"
    using assms by (auto simp: get_raw_def split: if_splits)
  show ?thesis
    using assms tr unfolding get_raw_ready [OF tr]
    by (auto split: sum.splits option.splits)
qed

text \<open>
  C4. Whenever \<open>get_raw\<close> returns an array, it is the accumulated byte buffer mapped
  sample by sample through \<open>(byte - yreference - yorigin) * yincrement\<close>, each byte read as
  an unsigned value of at most 255, with the constants of the stored preamble. The result
  is a function of the buffer and the preamble alone.
\<close>

theorem get_raw_volts:
  assumes "get_raw dev s = (Inr v, s')"
  shows "\<exists>p data_bin. preamble s = Some p \<and>
           fst (read_data dev (begin_read s)) = Inr data_bin \<and>
           v = map (\<lambda>b. (real (unat b) - yreference p - yorigin p) * yincrement p) data_bin \<and>
           list_all (\<lambda>b. unat b \<le> 255) data_bin"
proof -
  from get_raw_Inr [OF assms] obtain p data_bin where
    h: "preamble s = Some p" "fst (read_data dev (begin_read s)) = Inr data_bin"
       "v = to_volts p data_bin" by blast
  have "unat b \<le> 255" for b :: byte
  proof -
    have "unat b < 2 ^ LENGTH(8)" by (rule unsigned_less)
    then show ?thesis by simp
  qed
  then have "list_all (\<lambda>b. unat b \<le> 255) data_bin"
    by (simp add: list_all_iff)
  with h show ?thesis by (auto simp: to_volts_def)
qed

lemma length_linspace: "length (linspace a b n) = n"
  by (simp add: linspace_def)

lemma map_Some_the: "\<not> list_ex (\<lambda>v. v = None) xs \<Longrightarrow> map Some (map the xs) = xs"
  by (induction xs) auto

text \<open>
  C9. A call of \<open>prepare_curvedata\<close> that completes has queried the preamble in this very
  call (the query is the last entry it adds to the log), stored the preamble parsed from
  that reply, recomputed the setpoints and set the shape to the preamble's point count, and
  only then marked the trace ready; a following \<open>get_raw\<close> converts with exactly this
  preamble.
\<close>

theorem prepare_curvedata_fresh:
  assumes "prepare_curvedata pyfloat dev s = (Inr u, s')"
  shows "\<exists>nums p.
      map (conv pyfloat) (py_split CHR '','' (strip_str (ask_reply dev (n_asks s)))) = map Some nums \<and>
      PreambleNT nums = Some p \<and>
      preamble s' = Some p \<and>
      io_log s' = io_log s @
        (if raw s then [Write '':STOP'', Write '':WAVeform:MODE RAW'']
         else [Write '':WAVeform:MODE NORM'']) @ [Ask '':WAVeform:PREamble?''] \<and>
      n_asks s' = Suc (n_asks s) \<and>
      int (shape s') = py_int (points p) \<and>
      setpoints s' = linspace (xorigin p) (xorigin p + xincrement p * points p) (shape s') \<and>
      length (setpoints s') = shape s' \<and>
      trace_ready s' \<and>
      (\<forall>dev' v s''. get_raw dev' s' = (Inr v, s'') \<longrightarrow> (\<exists>data_bin. v = to_volts p data_bin))"
proof -
  define s1 where "s1 = (if raw s then instrument_write '':WAVeform:MODE RAW'' (instrument_write '':STOP'' s)
                else instrument_write '':WAVeform:MODE NORM'' s)"
  define s1a where "s1a = snd (instrument_ask dev '':WAVeform:PREamble?'' s1)"
  define xs where "xs = map (conv pyfloat) (py_split CHR '','' (strip_str (ask_reply dev (n_asks s))))"
  have n1: "n_asks s1 = n_asks s" by (simp add: s1_def)
  have gp: "get_preamble pyfloat dev s1 =
     (if list_ex (\<lambda>v. v = None) xs then (Inl Preamble_ValueError, s1a)
      else (case PreambleNT (map the xs) of
                 None \<Rightarrow> (Inl Preamble_TypeError, s1a)
               | Some p \<Rightarrow> (Inr (), s1a\<lparr>preamble := Some p\<rparr>)))"
    by (simp add: get_preamble_def Let_def split_beta s1a_def xs_def n1 split: option.splits)
  from assms have pc: "(case get_preamble pyfloat dev s1 of
           (Inl e, s2) \<Rightarrow> (Inl e, s2)
         | (Inr _, s2) \<Rightarrow>
             (case preamble s2 of
                None \<Rightarrow> (Inl Preamble_AttributeError, s2)
              | Some p \<Rightarrow>
                  if py_int (points p) < 0 then (Inl Linspace_ValueError, s2)
                  else
                    (let xdata = linspace (xorigin p) (xorigin p + xincrement p * points p)
                                   (nat (py_int (points p)))
                     in (Inr (), s2\<lparr>setpoints := xdata, shape := nat (py_int (points p)),
                                    trace_ready := True\<rparr>)))) = (Inr u, s')"
    by (simp add: prepare_curvedata_def s1_def Let_def)
  from pc gp have ok: "\<not> list_ex (\<lambda>v. v = None) xs"
    by (auto split: if_splits)
  with pc gp obtain p where p: "PreambleNT (map the xs) = Some p"
    by (cases "PreambleNT (map the xs)") auto
  from pc gp ok p have s': "0 \<le> py_int (points p)"
    "s' = s1a\<lparr>preamble := Some p,
             setpoints := linspace (xorigin p) (xorigin p + xincrement p * points p) (nat (py_int (points p))),
             shape := nat (py_int (points p)), trace_ready := True\<rparr>"
    by (auto simp: Let_def split: if_splits)
  have lg: "io_log s1a = io_log s @
        (if raw s then [Write '':STOP'', Write '':WAVeform:MODE RAW'']
         else [Write '':WAVeform:MODE NORM'']) @ [Ask '':WAVeform:PREamble?'']"
    by (simp add: s1a_def s1_def)
  have na: "n_asks s1a = Suc (n_asks s)" by (simp add: s1a_def n1)
  have use: "\<exists>data_bin. v = to_volts p data_bin" if "get_raw dev' s' = (Inr v, s'')" for dev' v s''
    using get_raw_Inr [OF that] s'(2) by auto
  have "map (conv pyfloat) (py_split CHR '','' (strip_str (ask_reply dev (n_asks s)))) = map Some (map the xs)"
    using map_Some_the [OF ok] by (simp add: xs_def)
  with p s' lg na use show ?thesis
    by (intro exI [of _ "map the xs"] exI [of _ p]) (simp add: length_linspace)
qed


lemma demo_block_ok: "validate_strip_block demo_block = Inr [0x41, 0x00, 0xFF]"
  by (simp add: demo_block_def validate_strip_block_def header_matches_def is_digit_byte_def
      int_of_digit_bytes_def strip_bytes_def is_space_byte_def)

lemma demo_preamble:
  "preamble (demo_ready rw) = Some \<lparr>pformat = 0, pmode = 2, points = 3, pcount = 1,
     xincrement = 1, xorigin = 0, xreference = 0, yincrement = 2, yorigin = 0, yreference = 100\<rparr>"
  by (simp add: demo_ready_def PreambleNT_def)

theorem get_raw_polling_loop_witness:
  "raw (demo_ready True) \<and> trace_ready (demo_ready True) \<and> max_read_step (demo_ready True) = 50 \<and>
   status_at demo_busy (demo_ready True) 49 = ''READ'' \<and>
   fst (get_raw demo_busy (demo_ready True)) = Inl Communication_error \<and>
   status_at demo_idle (demo_ready True) 1 = ''READ'' \<and>
   status_at demo_idle (demo_ready True) 2 = ''IDLE'' \<and>
   chunk_at demo_idle (demo_ready True) 2 = Inr [0x41, 0x00, 0xFF] \<and>
   fst (get_raw demo_idle (demo_ready True))
     = Inr [-70, -200, 310, -70, -200, 310, -70, -200, 310] \<and>
   n_asks (snd (get_raw demo_idle (demo_ready True))) = 3"
proof -
  have s: "raw (demo_ready True)" "trace_ready (demo_ready True)"
    "max_read_step (demo_ready True) = 50" "n_asks (demo_ready True) = 0"
    by (simp_all add: demo_ready_def init_def)
  have b: "\<forall>i<50. status_at demo_busy (demo_ready True) i \<noteq> ''IDLE'' \<and>
            (\<exists>c. chunk_at demo_busy (demo_ready True) i = Inr c)"
    by (simp add: status_at_def chunk_at_def demo_busy_def demo_block_ok)
  have i1: "\<forall>i<2. status_at demo_idle (demo_ready True) i \<noteq> ''IDLE''"
    by (simp add: status_at_def demo_idle_def s)
  have i2: "status_at demo_idle (demo_ready True) 2 = ''IDLE''"
    by (simp add: status_at_def demo_idle_def s)
  have i3: "\<forall>i\<le>2. chunk_at demo_idle (demo_ready True) i = Inr [0x41, 0x00, 0xFF]"
    by (simp add: chunk_at_def demo_idle_def demo_block_ok)
  have c: "concat (map (\<lambda>_. [0x41, 0x00, 0xFF :: byte]) [0..<Suc 2])
             = [0x41, 0x00, 0xFF, 0x41, 0x00, 0xFF, 0x41, 0x00, 0xFF]"
    by (simp add: upt_rec)
  note t1 = get_raw_polling_loop [OF s(1,2,3) demo_preamble, of demo_busy]
  note t2 = get_raw_polling_loop [OF s(1,2,3) demo_preamble, of demo_idle]
  from t1 b have r1: "fst (get_raw demo_busy (demo_ready True)) = Inl Communication_error"
    by blast
  have imp: "fst (get_raw demo_idle (demo_ready True))
       = Inr (to_volts \<lparr>pformat = 0, pmode = 2, points = 3, pcount = 1,
     xincrement = 1, xorigin = 0, xreference = 0, yincrement = 2, yorigin = 0, yreference = 100\<rparr>
         (concat (map c [0..<Suc k]))) \<and>
       n_asks (snd (get_raw demo_idle (demo_ready True))) = n_asks (demo_ready True) + Suc k"
    if "k < 50" "\<forall>i<k. status_at demo_idle (demo_ready True) i \<noteq> ''IDLE''"
       "status_at demo_idle (demo_ready True) k = ''IDLE''"
       "\<forall>i\<le>k. chunk_at demo_idle (demo_ready True) i = Inr (c i)" for k c
    using t2 that by blast
  have "fst (get_raw demo_idle (demo_ready True))
       = Inr (to_volts \<lparr>pformat = 0, pmode = 2, points = 3, pcount = 1,
     xincrement = 1, xorigin = 0, xreference = 0, yincrement = 2, yorigin = 0, yreference = 100\<rparr>
         (concat (map (\<lambda>_. [0x41, 0x00, 0xFF]) [0..<Suc 2]))) \<and>
       n_asks (snd (get_raw demo_idle (demo_ready True))) = n_asks (demo_ready True) + Suc 2"
    by (rule imp [of 2 "\<lambda>_. [0x41, 0x00, 0xFF]"]) (use i1 i2 i3 in simp_all)
  then have r2: "fst (get_raw demo_idle (demo_ready True))
     = Inr [-70, -200, 310, -70, -200, 310, -70, -200, 310] \<and>
   n_asks (snd (get_raw demo_idle (demo_ready True))) = 3"
    unfolding c by (simp add: to_volts_def s)
  have e: "status_at demo_busy (demo_ready True) 49 = ''READ''"
    "status_at demo_idle (demo_ready True) 1 = ''READ''"
    by (simp_all add: status_at_def demo_busy_def demo_idle_def s)
  from i3 have i4: "chunk_at demo_idle (demo_ready True) 2 = Inr [0x41, 0x00, 0xFF]"
    by simp
  from s e r1 i2 i4 r2 show ?thesis by blast
qed

lemma demo_get_raw:
  "fst (get_raw demo_scope (demo_ready False)) = Inr [-70, -200, 310]"
  by (simp add: get_raw_ready get_raw_fst [OF _ demo_preamble] read_data_def Let_def split_beta demo_block_ok
      demo_scope_def to_volts_def begin_read_def demo_ready_def init_def PreambleNT_def)

theorem get_raw_volts_witness:
  "fst (get_raw demo_scope (demo_ready False)) = Inr [-70, -200, 310] \<and>
   (\<exists>p data_bin. preamble (demo_ready False) = Some p \<and>
      fst (read_data demo_scope (begin_read (demo_ready False))) = Inr data_bin \<and>
      [-70, -200, 310] = map (\<lambda>b. (real (unat b) - yreference p - yorigin p) * yincrement p) data_bin \<and>
      list_all (\<lambda>b. unat b \<le> 255) data_bin)"
proof -
  have "get_raw demo_scope (demo_ready False)
          = (Inr [-70, -200, 310], snd (get_raw demo_scope (demo_ready False)))"
    using demo_get_raw by (simp add: prod_eq_iff)
  from get_raw_volts [OF this] demo_get_raw show ?thesis by simp
qed

lemma demo_prepare:
  "fst (prepare_curvedata (\<lambda>_. None) demo_scope (init 1 False)) = Inr ()"
  by (simp add: prepare_curvedata_def get_preamble_def instrument_ask_def instrument_write_def
      init_def demo_scope_def Let_def strip_str_def is_space_def conv_def isdigit_def is_digit_def
      nat_of_digits_def digit_value_def PreambleNT_def py_int_def)

theorem prepare_curvedata_fresh_witness:
  "fst (prepare_curvedata (\<lambda>_. None) demo_scope (init 1 False)) = Inr () \<and>
   trace_ready (snd (prepare_curvedata (\<lambda>_. None) demo_scope (init 1 False))) \<and>
   length (setpoints (snd (prepare_curvedata (\<lambda>_. None) demo_scope (init 1 False))))
     = shape (snd (prepare_curvedata (\<lambda>_. None) demo_scope (init 1 False)))"
proof -
  have "prepare_curvedata (\<lambda>_. None) demo_scope (init 1 False)
          = (Inr (), snd (prepare_curvedata (\<lambda>_. None) demo_scope (init 1 False)))"
    using demo_prepare by (simp add: prod_eq_iff)
  from prepare_curvedata_fresh [OF this] demo_prepare show ?thesis by blast
qed

lemma validate_strip_block_not_ready:
  "validate_strip_block b \<noteq> Inl RigolDS4000TraceNotReady"
  by (simp add: validate_strip_block_def Let_def)

lemma read_loop_not_ready:
  "fst (read_loop dev n s acc) \<noteq> Inl RigolDS4000TraceNotReady"
proof (induction n arbitrary: s acc)
  case 0
  show ?case by simp
next
  case (Suc n)
  show ?case
    using Suc.IH validate_strip_block_not_ready [of "read_reply dev (n_reads s)"]
    by (auto simp: read_loop_Suc Let_def chunk_at_def simp del: read_loop.simps split: sum.splits)
qed

lemma read_data_not_ready:
  "fst (read_data dev s) \<noteq> Inl RigolDS4000TraceNotReady"
proof (cases "raw s")
  case True
  then show ?thesis by (simp add: read_data_def Let_def read_loop_not_ready)
next
  case False
  then show ?thesis
    using validate_strip_block_not_ready [of "read_reply dev (n_reads s)"]
    by (auto simp: read_data_def Let_def split_beta split: sum.splits)
qed

lemma read_loop_log: "\<exists>evs. io_log (snd (read_loop dev n s acc)) = io_log s @ evs"
proof (induction n arbitrary: s acc)
  case 0
  show ?case by simp
next
  case (Suc n)
  let ?s3 = "snd (read_raw dev (instrument_write '':WAVeform:DATA?''
                 (snd (instrument_ask dev '':WAVeform:STATus?'' s))))"
  from Suc.IH [of ?s3] show ?case
    by (auto simp: read_loop_Suc Let_def simp del: read_loop.simps split: sum.splits)
qed

lemma read_data_log: "\<exists>evs. io_log (snd (read_data dev s)) = io_log s @ evs"
proof (cases "raw s")
  case True
  let ?t = "instrument_write '':WAVeform:BEGin'' (instrument_write '':WAVeform:RESet''
         (instrument_write ('':WAVeform:POINts '' @ str_nat (shape s)) s))"
  from read_loop_log [of dev "max_read_step s" ?t "[]"] True show ?thesis
    by (auto simp: read_data_def Let_def)
next
  case False
  then show ?thesis
    by (auto simp: read_data_def Let_def split_beta split: sum.splits)
qed

lemma get_raw_ready_io:
  assumes "trace_ready s"
  shows "fst (get_raw dev s) \<noteq> Inl RigolDS4000TraceNotReady"
    and "\<exists>evs. io_log (snd (get_raw dev s)) = io_log s @ Write '':WAVeform:FORMat BYTE'' # evs"
proof -
  show "fst (get_raw dev s) \<noteq> Inl RigolDS4000TraceNotReady"
    using read_data_not_ready [of dev "begin_read s"]
    by (auto simp: get_raw_ready [OF assms] split: sum.splits option.splits)
  from read_data_log [of dev "begin_read s"] obtain evs where
    "io_log (snd (read_data dev (begin_read s))) = io_log (begin_read s) @ evs" ..
  then have "io_log (snd (read_data dev (begin_read s))) =
      io_log s @ Write '':WAVeform:FORMat BYTE'' #
        (Write ('':WAVeform:SOURce CHAN'' @ str_int (channel s)) # evs)"
    by (simp add: begin_read_def)
  then show "\<exists>evs. io_log (snd (get_raw dev s)) = io_log s @ Write '':WAVeform:FORMat BYTE'' # evs"
    by (simp add: get_raw_ready [OF assms] split: sum.splits option.splits)
qed

lemma prepare_curvedata_ready:
  "prepare_curvedata pyfloat dev s = (Inr u, s1) \<Longrightarrow> trace_ready s1"
  by (auto simp: prepare_curvedata_def Let_def split: prod.splits sum.splits option.splits if_splits)

text \<open>
  C2. A retrieval that finds the trace not ready raises RigolDS4000TraceNotReady and leaves
  the whole state, the I/O log included, as it was; a freshly created parameter is in that
  situation. A retrieval that finds the trace ready does not raise that error and starts
  its traffic with the format command. Every retrieval leaves the flag cleared. Hence after
  a preparation that completes the trace is ready, the retrieval that follows is accepted,
  and the retrieval after that one raises the not-ready error.
\<close>

theorem get_raw_ready_flag:
  "get_raw dev (init ch rw) = (Inl RigolDS4000TraceNotReady, init ch rw) \<and>
   (\<not> trace_ready s \<longrightarrow> get_raw dev s = (Inl RigolDS4000TraceNotReady, s)) \<and>
   (trace_ready s \<longrightarrow>
      fst (get_raw dev s) \<noteq> Inl RigolDS4000TraceNotReady \<and>
      (\<exists>evs. io_log (snd (get_raw dev s)) = io_log s @ Write '':WAVeform:FORMat BYTE'' # evs)) \<and>
   \<not> trace_ready (snd (get_raw dev s)) \<and>
   (prepare_curvedata pyfloat dev s = (Inr u, s1) \<longrightarrow>
      trace_ready s1 \<and>
      fst (get_raw dev s1) \<noteq> Inl RigolDS4000TraceNotReady \<and>
      get_raw dev' (snd (get_raw dev s1)) = (Inl RigolDS4000TraceNotReady, snd (get_raw dev s1)))"
proof -
  have 1: "get_raw dev (init ch rw) = (Inl RigolDS4000TraceNotReady, init ch rw)"
    by (simp add: get_raw_def init_def)
  have 2: "get_raw d t = (Inl RigolDS4000TraceNotReady, t)" if "\<not> trace_ready t" for d t
    using that by (simp add: get_raw_def)
  have 5: "trace_ready s1 \<and>
      fst (get_raw dev s1) \<noteq> Inl RigolDS4000TraceNotReady \<and>
      get_raw dev' (snd (get_raw dev s1)) = (Inl RigolDS4000TraceNotReady, snd (get_raw dev s1))"
    if "prepare_curvedata pyfloat dev s = (Inr u, s1)"
    using prepare_curvedata_ready [OF that] get_raw_ready_io(1) [of s1 dev]
      2 [OF get_raw_consumes [of dev s1], of dev'] by simp
  from 1 2 [of s dev] get_raw_ready_io [of s dev] get_raw_consumes [of dev s] 5
  show ?thesis by blast
qed


lemma demo_prepared:
  "preamble (snd (prepare_curvedata (\<lambda>_. None) demo_scope (init 1 False))) =
     Some \<lparr>pformat = 0, pmode = 2, points = 3, pcount = 1,
       xincrement = 1, xorigin = 0, xreference = 0, yincrement = 2, yorigin = 0, yreference = 100\<rparr>"
  "\<not> raw (snd (prepare_curvedata (\<lambda>_. None) demo_scope (init 1 False)))"
  by (simp_all add: prepare_curvedata_def get_preamble_def instrument_ask_def instrument_write_def
      init_def demo_scope_def Let_def strip_str_def is_space_def conv_def isdigit_def is_digit_def
      nat_of_digits_def digit_value_def PreambleNT_def py_int_def)

lemma read_data_display:
  "\<not> raw s \<Longrightarrow> fst (read_data dev s) = validate_strip_block (read_reply dev (n_reads s))"
  by (auto simp: read_data_def Let_def split_beta split: sum.splits)

theorem get_raw_ready_flag_witness:
  "fst (prepare_curvedata (\<lambda>_. None) demo_scope (init 1 False)) = Inr () \<and>
   trace_ready (snd (prepare_curvedata (\<lambda>_. None) demo_scope (init 1 False))) \<and>
   fst (get_raw demo_scope (snd (prepare_curvedata (\<lambda>_. None) demo_scope (init 1 False))))
     = Inr [-70, -200, 310] \<and>
   \<not> trace_ready (snd (get_raw demo_scope
       (snd (prepare_curvedata (\<lambda>_. None) demo_scope (init 1 False))))) \<and>
   fst (get_raw demo_scope (snd (get_raw demo_scope
       (snd (prepare_curvedata (\<lambda>_. None) demo_scope (init 1 False))))))
     = Inl RigolDS4000TraceNotReady"
proof -
  let ?s1 = "snd (prepare_curvedata (\<lambda>_. None) demo_scope (init 1 False))"
  have p: "prepare_curvedata (\<lambda>_. None) demo_scope (init 1 False) = (Inr (), ?s1)"
    using demo_prepare by (simp add: prod_eq_iff)
  note t = get_raw_ready_flag [where dev = demo_scope and dev' = demo_scope and s = "init 1 False"
      and pyfloat = "\<lambda>_. None" and u = "()" and ?s1.0 = ?s1]
  from t p have tr: "trace_ready ?s1" by blast
  from get_raw_ready_flag [where dev = demo_scope and s = ?s1]
  have c: "\<not> trace_ready (snd (get_raw demo_scope ?s1))" by blast
  from t p have n: "get_raw demo_scope (snd (get_raw demo_scope ?s1))
      = (Inl RigolDS4000TraceNotReady, snd (get_raw demo_scope ?s1))" by blast
  have "fst (read_data demo_scope (begin_read ?s1)) = Inr [0x41, 0x00, 0xFF]"
    using demo_prepared(2) by (simp add: read_data_display demo_block_ok demo_scope_def)
  then have v: "fst (get_raw demo_scope ?s1) = Inr [-70, -200, 310]"
    using get_raw_fst [OF tr demo_prepared(1), of demo_scope] by (simp add: to_volts_def)
  from demo_prepare tr v c n show ?thesis by simp
qed

section \<open>Properties of the switch driver\<close>

lemma fst_bind:
  "fst (bind m f) = (case fst m of Inl e \<Rightarrow> Inl e | Inr x \<Rightarrow> fst (f x))"
  by (cases m) (auto simp: bind_def split: sum.splits prod.splits)

lemma snd_bind:
  "snd (bind m f) = (case fst m of Inl e \<Rightarrow> snd m | Inr x \<Rightarrow> snd m @ snd (f x))"
  by (cases m) (auto simp: bind_def split: sum.splits prod.splits)


lemma fst_bind_Inl: "fst m = Inl e \<Longrightarrow> fst (bind m f) = Inl e"
  by (simp add: fst_bind)

lemma fst_bind_eq_Inr:
  "fst (bind m f) = Inr y \<longleftrightarrow> (\<exists>x. fst m = Inr x \<and> fst (f x) = Inr y)"
  by (cases "fst m") (simp_all add: fst_bind)

lemma io_simps [simp]:
  "fst (return x) = Inr x" "snd (return x) = []"
  "fst (raise e) = Inl e" "snd (raise e) = []"
  "fst (switch_ask dev cmd) = Inr (dev (''print('' @ cmd @ '')''))"
  "snd (switch_ask dev cmd) = [Ask (''print('' @ cmd @ '')'')]"
  "fst (switch_write cmd) = Inr ()" "snd (switch_write cmd) = [Write cmd]"
  "fst (warn msg) = Inr ()" "snd (warn msg) = [Warning msg]"
  by (simp_all add: return_def raise_def switch_ask_def switch_write_def warn_def)

lemma map_io_Inr:
  "fst (map_io f xs) = Inr ys \<Longrightarrow> list_all2 (\<lambda>x y. fst (f x) = Inr y) xs ys"
proof (induction xs arbitrary: ys)
  case Nil
  then show ?case by simp
next
  case (Cons x xs)
  then show ?case
    by (auto simp: fst_bind_eq_Inr)
qed

lemma map_io_Inr_conv:
  "list_all2 (\<lambda>x y. fst (f x) = Inr y) xs ys \<Longrightarrow> fst (map_io f xs) = Inr ys"
  by (induction xs ys rule: list_all2_induct) (simp_all add: fst_bind)

lemma switch_cards_from_ids:
  "fst (switch_cards_from dev is) = Inr cards \<Longrightarrow> set (map slot_no cards) \<subseteq> str_nat ` set is"
proof (induction "is" arbitrary: cards)
  case Nil
  then show ?case by simp
next
  case (Cons i "is")
  show ?case
  proof (cases "dev (''print('' @ (''slot['' @ str_nat i @ ''].idn'') @ '')'') \<noteq> ''Empty Slot''")
    case False
    with Cons.prems have "fst (switch_cards_from dev is) = Inr cards"
      by (simp add: fst_bind)
    from Cons.IH [OF this] show ?thesis by auto
  next
    case True
    with Cons.prems obtain rest where
      r: "fst (switch_cards_from dev is) = Inr rest" and c: "slot_no ` set cards \<subseteq> insert (str_nat i) (slot_no ` set rest)"
      by (auto simp: fst_bind fst_bind_eq_Inr split: list.splits sum.splits)
    from Cons.IH [OF r] c show ?thesis by (simp add: subset_iff image_iff) blast
  qed
qed

lemma str_nat_small: "n < 10 \<Longrightarrow> str_nat n = [digit_char n]"
  by (simp add: str_nat.simps)

lemma slot_ids_single:
  assumes "fst (get_slot_ids dev) = Inr ids" and "s \<in> set ids"
  shows "s \<in> {''1'', ''2'', ''3'', ''4'', ''5'', ''6''}"
proof -
  from assms(1) obtain cards where c: "fst (get_switch_cards dev) = Inr cards" and i: "ids = map slot_no cards"
    by (auto simp: get_slot_ids_def fst_bind_eq_Inr)
  from switch_cards_from_ids [OF c [unfolded get_switch_cards_def]] assms(2) i
  have "s \<in> str_nat ` {1, 2, 3, 4, 5, 6}" by auto
  then show ?thesis by (auto simp: str_nat_small digit_char_def)
qed

lemma str_nat_not_Nil: "str_nat n \<noteq> []"
  by (subst str_nat.simps) simp

lemma str_int_not_Nil: "str_int i \<noteq> []"
  by (simp add: str_int_def str_nat_not_Nil)

lemma inventory_lengths:
  assumes "inventory pyfloat dev ids nrows ncols"
  shows "length nrows = length ids" "length ncols = length ids"
proof -
  from assms have i: "fst (get_slot_ids dev) = Inr ids"
    and r: "fst (get_number_of_rows pyfloat dev) = Inr nrows"
    and c: "fst (get_number_of_columns pyfloat dev) = Inr ncols"
    by (simp_all add: inventory_def)
  from r i show "length nrows = length ids"
    by (auto simp: get_number_of_rows_def fst_bind_eq_Inr dest!: map_io_Inr list_all2_lengthD)
  from c i show "length ncols = length ids"
    by (auto simp: get_number_of_columns_def fst_bind_eq_Inr dest!: map_io_Inr list_all2_lengthD)
qed

lemma channels_loop_ok:
  "i + length xs = length rows \<Longrightarrow> length cols = length rows \<Longrightarrow>
   channels_loop i xs rows cols =
     Inr (concat (map (\<lambda>(s, r, c). product_join s r c) (zip xs (zip (drop i rows) (drop i cols)))))"
proof (induction xs arbitrary: i)
  case Nil
  show ?case by simp
next
  case (Cons x xs)
  from Cons.prems have lt: "i < length rows" "i < length cols" by simp_all
  have d: "drop i rows = rows ! i # drop (Suc i) rows" "drop i cols = cols ! i # drop (Suc i) cols"
    using lt by (simp_all add: Cons_nth_drop_Suc)
  from Cons.prems have "Suc i + length xs = length rows" by simp
  from Cons.IH [OF this Cons.prems(2)] lt show ?case
    by (simp add: d)
qed

lemma get_rows_ok:
  "fst (get_number_of_rows pyfloat dev) = Inr nrows \<Longrightarrow>
   fst (get_rows pyfloat dev) = Inr (map rows_in_slot nrows)"
  by (simp add: get_rows_def fst_bind)

lemma get_columns_ok:
  "fst (get_number_of_columns pyfloat dev) = Inr ncols \<Longrightarrow>
   fst (get_columns pyfloat dev) = Inr (map columns_in_slot ncols)"
  by (simp add: get_columns_def fst_bind)

lemma get_channels_ok:
  assumes "inventory pyfloat dev ids nrows ncols"
  shows "fst (get_channels pyfloat dev) = Inr (matrix_channels ids nrows ncols)"
proof -
  note l = inventory_lengths [OF assms]
  from assms have i: "fst (get_slot_ids dev) = Inr ids"
    and r: "fst (get_rows pyfloat dev) = Inr (map rows_in_slot nrows)"
    and c: "fst (get_columns pyfloat dev) = Inr (map columns_in_slot ncols)"
    by (simp_all add: inventory_def get_rows_ok get_columns_ok)
  have "channels_loop 0 ids (map rows_in_slot nrows) (map columns_in_slot ncols)
          = Inr (matrix_channels ids nrows ncols)"
    using l by (subst channels_loop_ok) (simp_all add: matrix_channels_def zip_map2 zip_map1 o_def split_def map_zip_map map_zip_map2)
  then show ?thesis
    by (simp add: get_channels_def fst_bind i r c)
qed

lemma int_str_slot:
  assumes "s \<in> {''1'', ''2'', ''3'', ''4'', ''5'', ''6''}"
  shows "\<exists>n. fst (int_str s) = Inr n \<and> str_int n = s"
  using assms
  by (auto simp: int_str_def isdigit_def is_digit_def nat_of_digits_def digit_value_def
      str_int_def str_nat_small digit_char_def)

lemma map_io_map:
  "(\<And>x. x \<in> set xs \<Longrightarrow> fst (f x) = Inr (g x)) \<Longrightarrow> fst (map_io f xs) = Inr (map g xs)"
  by (induction xs) (simp_all add: fst_bind)

lemma get_channels_by_slot_ok:
  assumes "inventory pyfloat dev ids nrows ncols" and "str_int n \<in> set ids"
  shows "fst (get_channels_by_slot pyfloat dev n) =
           Inr (product_join (str_int n) (rows_in_slot (hd nrows)) (columns_in_slot (hd ncols)))"
proof -
  note l = inventory_lengths [OF assms(1)]
  from assms have i: "fst (get_slot_ids dev) = Inr ids"
    and r: "fst (get_rows pyfloat dev) = Inr (map rows_in_slot nrows)"
    and c: "fst (get_columns pyfloat dev) = Inr (map columns_in_slot ncols)"
    by (simp_all add: inventory_def get_rows_ok get_columns_ok)
  from assms(2) have "ids \<noteq> []" by auto
  with l obtain r0 rs c0 cs where "nrows = r0 # rs" "ncols = c0 # cs"
    by (cases nrows; cases ncols) auto
  then show ?thesis
    using assms(2) by (simp add: get_channels_by_slot_def fst_bind i r c)
qed

lemma get_channel_ranges_ok:
  assumes "inventory pyfloat dev ids nrows ncols"
  shows "fst (get_channel_ranges pyfloat dev) = Inr (code_channel_ranges ids nrows ncols)"
proof -
  from assms have i: "fst (get_slot_ids dev) = Inr ids" by (simp add: inventory_def)
  have "fst (bind (int_str s) (\<lambda>n. bind (get_channels_by_slot pyfloat dev n) (\<lambda>chan.
               return (combinations2 chan))))
        = Inr (combinations2 (product_join s (rows_in_slot (hd nrows)) (columns_in_slot (hd ncols))))"
    if "s \<in> set ids" for s
  proof -
    from int_str_slot [OF slot_ids_single [OF i that]] obtain n
      where n: "fst (int_str s) = Inr n" "str_int n = s" by blast
    with that have "str_int n \<in> set ids" by simp
    from get_channels_by_slot_ok [OF assms this] n show ?thesis
      by (simp add: fst_bind)
  qed
  then have "fst (map_io (\<lambda>i. bind (int_str i) (\<lambda>n.
             bind (get_channels_by_slot pyfloat dev n) (\<lambda>chan.
               return (combinations2 chan)))) ids)
        = Inr (map (\<lambda>s. combinations2 (product_join s (rows_in_slot (hd nrows)) (columns_in_slot (hd ncols)))) ids)"
    by (rule map_io_map)
  then show ?thesis
    by (simp add: get_channel_ranges_def fst_bind i code_channel_ranges_def)
qed

lemma get_slot_names_ok:
  "fst (get_slot_ids dev) = Inr ids \<Longrightarrow> fst (get_slot_names dev) = Inr (map (\<lambda>x. ''slot'' @ x) ids)"
  by (simp add: get_slot_names_def fst_bind)

lemma get_analog_backplane_specifiers_ok:
  "fst (get_slot_ids dev) = Inr ids \<Longrightarrow>
   fst (get_analog_backplane_specifiers dev) = Inr (backplane_relays ids)"
  by (simp add: get_analog_backplane_specifiers_def fst_bind backplane_relays_def)

lemma legal_specifiers_ok:
  assumes "inventory pyfloat dev ids nrows ncols"
  shows "fst (legal_specifiers pyfloat dev) = Inr (code_legal_set ids nrows ncols)"
proof -
  from assms have i: "fst (get_slot_ids dev) = Inr ids" by (simp add: inventory_def)
  show ?thesis
    by (simp add: legal_specifiers_def fst_bind get_channels_ok [OF assms]
        get_channel_ranges_ok [OF assms] get_slot_names_ok [OF i]
        get_analog_backplane_specifiers_ok [OF i] code_legal_set_def slot_specifiers_def)
qed

lemma all_legal_iff: "all_legal legal xs \<longleftrightarrow> list_all (\<lambda>e. e \<in> set legal) xs"
  by (induction xs) auto

lemma validator_ok:
  assumes "inventory pyfloat dev ids nrows ncols"
  shows "fst (validator pyfloat dev val) =
           Inr (list_all (\<lambda>e. e \<in> set (code_legal_set ids nrows ncols)) (py_split CHR '','' val))"
  by (simp add: validator_def fst_bind legal_specifiers_ok [OF assms] all_legal_iff)

lemma set_product_join:
  "set (product_join slot rows cols) = {c # r @ col | c r col. c \<in> set slot \<and> r \<in> set rows \<and> col \<in> set cols}"
  by (auto simp: product_join_def)

lemma set_rows_in_slot: "set (rows_in_slot n) = {str_int r | r. 1 \<le> r \<and> r \<le> n}"
  by (auto simp: rows_in_slot_def)

lemma set_columns_in_slot: "set (columns_in_slot n) = {column_name c | c. 1 \<le> c \<and> c \<le> n}"
  by (auto simp: columns_in_slot_def)

lemma in_product_join:
  "e \<in> set (product_join slot (rows_in_slot n) (columns_in_slot m)) \<longleftrightarrow>
     (\<exists>s r c. e = s # str_int r @ column_name c \<and> s \<in> set slot \<and>
        1 \<le> r \<and> r \<le> n \<and> 1 \<le> c \<and> c \<le> m)"
  unfolding set_product_join set_rows_in_slot set_columns_in_slot by blast

lemma in_matrix_channels:
  assumes "length nrows = length ids" and "length ncols = length ids"
  shows "e \<in> set (matrix_channels ids nrows ncols) \<longleftrightarrow>
     (\<exists>i s r c. e = s # str_int r @ column_name c \<and>
        i < length ids \<and> s \<in> set (ids ! i) \<and> 1 \<le> r \<and> r \<le> nrows ! i \<and> 1 \<le> c \<and> c \<le> ncols ! i)"
proof -
  have "e \<in> set (matrix_channels ids nrows ncols) \<longleftrightarrow>
        (\<exists>i<length ids. e \<in> set (product_join (ids ! i) (rows_in_slot (nrows ! i)) (columns_in_slot (ncols ! i))))"
  proof
    assume "e \<in> set (matrix_channels ids nrows ncols)"
    then obtain s r c where z: "(s, r, c) \<in> set (zip ids (zip nrows ncols))"
      and e: "e \<in> set (product_join s (rows_in_slot r) (columns_in_slot c))"
      by (auto simp: matrix_channels_def)
    from z obtain i where "i < length ids" "s = ids ! i" "r = nrows ! i" "c = ncols ! i"
      using assms by (auto simp: in_set_zip)
    with e show "\<exists>i<length ids. e \<in> set (product_join (ids ! i) (rows_in_slot (nrows ! i))
        (columns_in_slot (ncols ! i)))"
      by blast
  next
    assume "\<exists>i<length ids. e \<in> set (product_join (ids ! i) (rows_in_slot (nrows ! i))
        (columns_in_slot (ncols ! i)))"
    then obtain i where i: "i < length ids"
      and e: "e \<in> set (product_join (ids ! i) (rows_in_slot (nrows ! i)) (columns_in_slot (ncols ! i)))"
      by blast
    have "(ids ! i, nrows ! i, ncols ! i) \<in> set (zip ids (zip nrows ncols))"
      using i assms by (auto simp: in_set_zip)
    with e show "e \<in> set (matrix_channels ids nrows ncols)"
      unfolding matrix_channels_def set_concat set_map
      by (intro UN_I [where a = "product_join (ids ! i) (rows_in_slot (nrows ! i)) (columns_in_slot (ncols ! i))"]
            image_eqI [where x = "(ids ! i, nrows ! i, ncols ! i)"]) simp_all
  qed
  then show ?thesis
    unfolding in_product_join by blast
qed


lemma set_matrix_channels:
  assumes "length nrows = length ids" and "length ncols = length ids"
  shows "set (matrix_channels ids nrows ncols) =
     {s # str_int r @ column_name c | i s r c.
        i < length ids \<and> s \<in> set (ids ! i) \<and> 1 \<le> r \<and> r \<le> nrows ! i \<and> 1 \<le> c \<and> c \<le> ncols ! i}"
  by (rule set_eqI) (simp only: in_matrix_channels [OF assms] mem_Collect_eq)

lemma set_backplane_relays:
  "set (backplane_relays ids) =
     {s @ ''9'' @ r | s r. s \<in> set ids \<and> r \<in> {''11'', ''12'', ''13'', ''14'', ''15'', ''16''}}"
  by (auto simp: backplane_relays_def)

lemma set_slot_specifiers:
  "set (slot_specifiers ids) = insert ''allslots'' {''slot'' @ x | x. x \<in> set ids}"
  by (auto simp: slot_specifiers_def)

text \<open>What the validator decides is membership in the list the code enumerates.\<close>

lemma validator_decides_code_legal_set:
  assumes "inventory pyfloat dev ids nrows ncols"
  shows "(list_all (\<lambda>e. e \<in> set (code_legal_set ids nrows ncols)) (py_split CHR '','' val)
            \<longrightarrow> fst (validator pyfloat dev val) = Inr True) \<and>
         (list_ex (\<lambda>e. e \<notin> set (code_legal_set ids nrows ncols)) (py_split CHR '','' val)
            \<longrightarrow> fst (validator pyfloat dev val) = Inr False) \<and>
         set (code_legal_set ids nrows ncols) =
           {s # str_int r @ column_name c | i s r c.
              i < length ids \<and> s \<in> set (ids ! i) \<and> 1 \<le> r \<and> r \<le> nrows ! i \<and>
              1 \<le> c \<and> c \<le> ncols ! i} \<union>
           set (code_channel_ranges ids nrows ncols) \<union>
           insert ''allslots'' {''slot'' @ x | x. x \<in> set ids} \<union>
           {s @ ''9'' @ r | s r. s \<in> set ids \<and> r \<in> {''11'', ''12'', ''13'', ''14'', ''15'', ''16''}}"
proof -
  note l = inventory_lengths [OF assms]
  have ex: "list_ex (\<lambda>e. e \<notin> set (code_legal_set ids nrows ncols)) xs
          \<longleftrightarrow> \<not> list_all (\<lambda>e. e \<in> set (code_legal_set ids nrows ncols)) xs" for xs
    by (simp add: list_all_iff list_ex_iff)
  have st: "set (code_legal_set ids nrows ncols) =
      set (matrix_channels ids nrows ncols) \<union> set (code_channel_ranges ids nrows ncols) \<union>
      set (slot_specifiers ids) \<union> set (backplane_relays ids)"
    by (simp add: code_legal_set_def Un_assoc)
  show ?thesis
    unfolding validator_ok [OF assms] ex
    by (simp only: st set_matrix_channels [OF l] set_backplane_relays set_slot_specifiers)
       simp
qed

lemma demo_slot_ids: "fst (get_slot_ids (demo_switch r c st)) = Inr [''1'']"
  by (simp add: get_slot_ids_def get_switch_cards_def fst_bind str_nat_small digit_char_def
      demo_switch_def strip_str_def is_space_def)

lemma demo_inventory: "inventory demo_float (demo_switch ''2'' ''2'' st) [''1''] [2] [2]"
  by (simp add: inventory_def demo_slot_ids get_number_of_rows_def get_number_of_columns_def
      fst_bind int_float_def demo_float_def demo_switch_def isdigit_def is_digit_def
      nat_of_digits_def digit_value_def py_int_def)

lemma upto_1_2: "[1..2] = [1, 2 :: int]"
  by (simp add: upto.simps)

lemma demo_legal:
  "code_legal_set [''1''] [2] [2] =
     [''1101'', ''1102'', ''1201'', ''1202'', ''1101:1102'', ''1101:1201'',
      ''1101:1202'', ''1102:1201'', ''1102:1202'', ''1201:1202'',
      ''allslots'', ''slot1'', ''1911'', ''1912'', ''1913'', ''1914'', ''1915'', ''1916'']"
  by (simp add: code_legal_set_def matrix_channels_def code_channel_ranges_def slot_specifiers_def
      backplane_relays_def product_join_def rows_in_slot_def columns_in_slot_def
      column_name_def str_int_def str_nat_small digit_char_def upto_1_2)

lemma validator_demo_2x2:
  "fst (validator demo_float (demo_switch ''2'' ''2'' ''0'') ''1101,1911,slot1,1101:1202'') = Inr True \<and>
   fst (validator demo_float (demo_switch ''2'' ''2'' ''0'') ''1101,1971'') = Inr False"
proof -
  note t = validator_decides_code_legal_set [OF demo_inventory [of "''0''"]]
  have "fst (validator demo_float (demo_switch ''2'' ''2'' ''0'') ''1101,1911,slot1,1101:1202'') = Inr True"
    by (rule t [where val = "''1101,1911,slot1,1101:1202''", THEN conjunct1, rule_format])
       (simp add: demo_legal)
  moreover
  have "fst (validator demo_float (demo_switch ''2'' ''2'' ''0'') ''1101,1971'') = Inr False"
    by (rule t [where val = "''1101,1971''", THEN conjunct2, THEN conjunct1, rule_format])
       (simp add: demo_legal)
  ultimately show ?thesis by simp
qed

lemma in_combinations2:
  "e \<in> set (combinations2 xs) \<Longrightarrow> \<exists>x y. x \<in> set xs \<and> y \<in> set xs \<and> e = x @ '':'' @ y"
  by (induction xs) auto

lemma in_code_channel_ranges:
  assumes "e \<in> set (code_channel_ranges ids nrows ncols)"
  shows "CHR '':'' \<in> set e \<and> 5 \<le> length e"
proof -
  from assms obtain s where
    "e \<in> set (combinations2 (product_join s (rows_in_slot (hd nrows)) (columns_in_slot (hd ncols))))"
    by (auto simp: code_channel_ranges_def)
  from in_combinations2 [OF this] obtain x y where
    x: "x \<in> set (product_join s (rows_in_slot (hd nrows)) (columns_in_slot (hd ncols)))" and
    y: "y \<in> set (product_join s (rows_in_slot (hd nrows)) (columns_in_slot (hd ncols)))" and
    e: "e = x @ '':'' @ y" by blast
  from x obtain a r c where "x = a # str_int r @ column_name c"
    unfolding in_product_join by blast
  then have lx: "2 \<le> length x"
    using str_int_not_Nil [of r] by (cases "str_int r") simp_all
  from y obtain a' r' c' where "y = a' # str_int r' @ column_name c'"
    unfolding in_product_join by blast
  then have ly: "2 \<le> length y"
    using str_int_not_Nil [of r'] by (cases "str_int r'") simp_all
  from e lx ly show ?thesis by simp
qed

lemma str_int_digit: "1 \<le> r \<Longrightarrow> r < 9 \<Longrightarrow> \<exists>d. str_int r = [d] \<and> d \<noteq> CHR ''9''"
proof -
  assume "1 \<le> r" "r < 9"
  then have "r \<in> {1, 2, 3, 4, 5, 6, 7, 8}" by auto
  then show ?thesis
    by (auto simp: str_int_def str_nat_small digit_char_def)
qed

lemma demo_inventory_6x8: "inventory demo_float (demo_switch ''6'' ''8'' st) [''1''] [6] [8]"
  by (simp add: inventory_def demo_slot_ids get_number_of_rows_def get_number_of_columns_def
      fst_bind int_float_def demo_float_def demo_switch_def isdigit_def is_digit_def
      nat_of_digits_def digit_value_def py_int_def)

lemma ids_single_char:
  assumes "fst (get_slot_ids dev) = Inr ids" and "s \<in> set ids"
  shows "\<exists>c. s = [c]"
  using slot_ids_single [OF assms] by auto

lemma legal_4char:
  assumes inv: "inventory pyfloat dev ids nrows ncols"
      and e: "e \<in> set (code_legal_set ids nrows ncols)" and len: "length e = 4"
  shows "[e ! 0] \<in> set ids"
proof -
  from inv have i: "fst (get_slot_ids dev) = Inr ids" by (simp add: inventory_def)
  note l = inventory_lengths [OF inv]
  from e consider (m) "e \<in> set (matrix_channels ids nrows ncols)"
    | (r) "e \<in> set (code_channel_ranges ids nrows ncols)"
    | (s) "e \<in> set (slot_specifiers ids)"
    | (b) "e \<in> set (backplane_relays ids)"
    by (auto simp: code_legal_set_def)
  then show ?thesis
  proof cases
    case m
    then obtain k s where k: "k < length ids" "s \<in> set (ids ! k)" and e0: "e ! 0 = s"
      unfolding in_matrix_channels [OF l] by auto
    from k have in_ids: "ids ! k \<in> set ids" by simp
    from ids_single_char [OF i in_ids] k(2) have "ids ! k = [s]" by auto
    with in_ids e0 show ?thesis by simp
  next
    case r
    from in_code_channel_ranges [OF r] len show ?thesis by simp
  next
    case s
    then have "e = ''allslots'' \<or> (\<exists>x\<in>set ids. e = ''slot'' @ x)"
      by (auto simp: slot_specifiers_def)
    then show ?thesis
    proof
      assume "e = ''allslots''" with len show ?thesis by simp
    next
      assume "\<exists>x\<in>set ids. e = ''slot'' @ x"
      then obtain x where x: "x \<in> set ids" "e = ''slot'' @ x" by blast
      from ids_single_char [OF i x(1)] x(2) len show ?thesis by auto
    qed
  next
    case b
    then obtain s t where s: "s \<in> set ids" and e': "e = s @ CHR ''9'' # t"
      by (auto simp: backplane_relays_def)
    from ids_single_char [OF i s] obtain c where "s = [c]" by blast
    with s e' show ?thesis by simp
  qed
qed

lemma get_interlock_state_slots:
  assumes "fst (get_slot_ids dev) = Inr ids"
      and "fst (get_interlock_state pyfloat dev) = Inr states"
  shows "map fst states = ids"
proof -
  let ?g = "\<lambda>i. bind (get_interlock_state_by_slot pyfloat dev i) (\<lambda>state.
                 bind (interlock_status state) (\<lambda>text. return (i, text)))"
  from assms have "fst (map_io ?g ids) = Inr states"
    by (simp add: get_interlock_state_def fst_bind)
  from map_io_Inr [OF this] have "list_all2 (\<lambda>i st. fst st = i) ids states"
    by (rule list_all2_mono) (auto simp: fst_bind_eq_Inr)
  then show ?thesis
    by (induction ids states rule: list_all2_induct) simp_all
qed

lemma find_map_of:
  "find (\<lambda>st. fst st = k) states =
     (case map_of states k of None \<Rightarrow> None | Some v \<Rightarrow> Some (k, v))"
  by (induction states) auto

lemma map_of_slot:
  "k \<in> fst ` set states \<Longrightarrow> \<exists>v. map_of states k = Some v"
  by (cases "map_of states k") (auto simp: map_of_eq_None_iff)

lemma warn_loop_step:
  assumes "length e = 4" and "e ! 1 = CHR ''9'' \<longrightarrow> [e ! 0] \<in> fst ` set states"
  shows "fst (warn_loop states (e # rest)) = fst (warn_loop states rest)"
    and "snd (warn_loop states (e # rest)) =
           interlock_warnings states [e] @ snd (warn_loop states rest)"
proof -
  show "fst (warn_loop states (e # rest)) = fst (warn_loop states rest)"
  proof (cases "e ! 1 = CHR ''9''")
    case False
    with assms(1) show ?thesis by (simp add: is_backplane_channel_def fst_bind)
  next
    case True
    with assms(2) have "[e ! 0] \<in> fst ` set states" by simp
    from map_of_slot [OF this] obtain v where "map_of states [e ! 0] = Some v" ..
    with True assms(1) show ?thesis
      by (simp add: is_backplane_channel_def fst_bind find_map_of Let_def)
  qed
  show "snd (warn_loop states (e # rest)) =
           interlock_warnings states [e] @ snd (warn_loop states rest)"
  proof (cases "e ! 1 = CHR ''9''")
    case False
    with assms(1) show ?thesis
      by (simp add: is_backplane_channel_def snd_bind interlock_warnings_def)
  next
    case True
    with assms(2) have "[e ! 0] \<in> fst ` set states" by simp
    from map_of_slot [OF this] obtain v where "map_of states [e ! 0] = Some v" ..
    with True assms(1) show ?thesis
      by (simp add: is_backplane_channel_def snd_bind fst_bind find_map_of Let_def
          interlock_warnings_def)
  qed
qed

lemma warn_loop_ok:
  assumes "list_all (\<lambda>e. length e = 4 \<and> (e ! 1 = CHR ''9'' \<longrightarrow> [e ! 0] \<in> fst ` set states)) xs"
  shows "fst (warn_loop states xs) = Inr () \<and>
         snd (warn_loop states xs) = interlock_warnings states xs"
  using assms
proof (induction xs)
  case Nil
  show ?case by (simp add: interlock_warnings_def)
next
  case (Cons e xs)
  then have e: "length e = 4" "e ! 1 = CHR ''9'' \<longrightarrow> [e ! 0] \<in> fst ` set states"
    and r: "list_all (\<lambda>e. length e = 4 \<and> (e ! 1 = CHR ''9'' \<longrightarrow> [e ! 0] \<in> fst ` set states)) xs"
    by simp_all
  from Cons.IH [OF r] show ?case
    unfolding warn_loop_step [OF e] by (simp add: interlock_warnings_def)
qed

lemma warn_loop_rejects:
  assumes "list_all (\<lambda>e. length e = 4 \<longrightarrow> e ! 1 = CHR ''9'' \<longrightarrow> [e ! 0] \<in> fst ` set states) xs"
      and "list_ex (\<lambda>e. length e \<noteq> 4) xs"
  shows "fst (warn_loop states xs) = Inl Keithley3706AInvalidValue"
  using assms
proof (induction xs)
  case Nil
  then show ?case by simp
next
  case (Cons e xs)
  show ?case
  proof (cases "length e = 4")
    case False
    then show ?thesis by (simp add: is_backplane_channel_def fst_bind)
  next
    case True
    with Cons.prems have e: "e ! 1 = CHR ''9'' \<longrightarrow> [e ! 0] \<in> fst ` set states"
      and r: "list_all (\<lambda>e. length e = 4 \<longrightarrow> e ! 1 = CHR ''9'' \<longrightarrow> [e ! 0] \<in> fst ` set states) xs"
      and x: "list_ex (\<lambda>e. length e \<noteq> 4) xs"
      by simp_all
    from Cons.IH [OF r x] show ?thesis
      unfolding warn_loop_step(1) [OF True e] .
  qed
qed

lemma no_write_simps [simp]:
  "no_write []" "no_write (a @ b) \<longleftrightarrow> no_write a \<and> no_write b"
  "no_write [Ask c]" "no_write [Warning w]" "\<not> no_write [Write c]"
  by (simp_all add: no_write_def)

lemma no_write_bind:
  "no_write (snd m) \<Longrightarrow> (\<And>x. no_write (snd (f x))) \<Longrightarrow> no_write (snd (bind m f))"
  by (simp add: snd_bind split: sum.splits)

lemma no_write_if:
  "no_write (snd a) \<Longrightarrow> no_write (snd b) \<Longrightarrow> no_write (snd (if c then a else b))"
  by simp

lemma no_write_map_io:
  "(\<And>x. no_write (snd (f x))) \<Longrightarrow> no_write (snd (map_io f xs))"
  by (induction xs) (simp_all add: no_write_bind)

lemma no_write_switch_cards_from: "no_write (snd (switch_cards_from dev is))"
proof (induction "is")
  case Nil
  show ?case by simp
next
  case (Cons i "is")
  show ?case
    unfolding switch_cards_from.simps
    by (rule no_write_bind, simp, rule no_write_if)
       (auto intro!: no_write_bind Cons split: list.splits)
qed

lemma no_write_get_switch_cards [simp]: "no_write (snd (get_switch_cards dev))"
  by (simp only: get_switch_cards_def no_write_switch_cards_from)

lemma no_write_inventory [simp]:
  "no_write (snd (get_slot_ids dev))"
  "no_write (snd (get_slot_names dev))"
  "no_write (snd (int_float pyfloat x))"
  "no_write (snd (int_str x))"
  "no_write (snd (get_analog_backplane_specifiers dev))"
  by (auto simp: get_slot_ids_def get_slot_names_def int_float_def
      int_str_def get_analog_backplane_specifiers_def
      intro!: no_write_bind split: option.splits)

lemma no_write_counts [simp]:
  "no_write (snd (get_number_of_rows pyfloat dev))"
  "no_write (snd (get_number_of_columns pyfloat dev))"
  "no_write (snd (get_rows pyfloat dev))"
  "no_write (snd (get_columns pyfloat dev))"
  by (auto simp: get_number_of_rows_def get_number_of_columns_def get_rows_def get_columns_def
      intro!: no_write_bind no_write_map_io)

lemma no_write_channels [simp]:
  "no_write (snd (get_channels pyfloat dev))"
  "no_write (snd (get_channels_by_slot pyfloat dev n))"
  by (auto simp: get_channels_def get_channels_by_slot_def
      intro!: no_write_bind split: sum.splits list.splits)

lemma no_write_validator [simp]:
  "no_write (snd (get_channel_ranges pyfloat dev))"
  "no_write (snd (legal_specifiers pyfloat dev))"
  "no_write (snd (validator pyfloat dev val))"
  by (auto simp: get_channel_ranges_def legal_specifiers_def validator_def
      intro!: no_write_bind no_write_map_io)

lemma no_write_interlock [simp]:
  "no_write (snd (interlock_status state))"
  "no_write (snd (get_interlock_state_by_slot pyfloat dev slot))"
  "no_write (snd (get_interlock_state pyfloat dev))"
  "no_write (snd (is_backplane_channel chan))"
  by (auto simp: interlock_status_def get_interlock_state_by_slot_def get_interlock_state_def
      is_backplane_channel_def intro!: no_write_bind no_write_map_io)

lemma no_write_warn_loop [simp]: "no_write (snd (warn_loop states xs))"
proof (induction xs)
  case Nil
  show ?case by simp
next
  case (Cons e xs)
  show ?case
    unfolding warn_loop.simps Let_def
    by (auto intro!: no_write_bind Cons split: option.splits)
qed

lemma no_write_forbidden [simp]:
  "no_write (snd (warn_on_disengaged_interlocks pyfloat dev val))"
  "no_write (snd (get_forbidden_channels pyfloat dev val))"
  by (auto simp: warn_on_disengaged_interlocks_def get_forbidden_channels_def
      intro!: no_write_bind)

lemma fails_before_write_bind:
  "no_write (snd m) \<Longrightarrow> (\<And>x. fails_before_write (f x)) \<Longrightarrow> fails_before_write (bind m f)"
  by (auto simp: fails_before_write_def fst_bind snd_bind split: sum.splits)

lemma fails_before_write_simps [simp]:
  "fails_before_write (raise e)" "fails_before_write (switch_write c)"
  "fails_before_write (switch_ask dev c)"
  by (simp_all add: fails_before_write_def)

lemma fails_before_write_close_channel: "fails_before_write (close_channel pyfloat dev val)"
  unfolding close_channel_def
  by (intro fails_before_write_bind) (auto intro!: fails_before_write_bind)

lemma allslots_legal: "''allslots'' \<in> set (code_legal_set ids nrows ncols)"
  by (simp add: code_legal_set_def slot_specifiers_def)

lemma get_forbidden_channels_ok:
  assumes "inventory pyfloat dev ids nrows ncols"
  shows "fst (get_forbidden_channels pyfloat dev ''allslots'') = Inr (forbidden_reply dev)"
proof -
  have "py_split CHR '','' ''allslots'' = [''allslots'']" by simp
  then have "fst (validator pyfloat dev ''allslots'') = Inr True"
    unfolding validator_ok [OF assms] using allslots_legal [of ids nrows ncols] by simp
  then show ?thesis
    by (simp add: get_forbidden_channels_def fst_bind forbidden_reply_def)
qed

lemma warn_on_disengaged_interlocks_ok:
  assumes "fst (get_interlock_state pyfloat dev) = Inr states"
  shows "fst (warn_on_disengaged_interlocks pyfloat dev val) = fst (warn_loop states (py_split CHR '','' val))"
    and "snd (warn_on_disengaged_interlocks pyfloat dev val) =
           snd (get_interlock_state pyfloat dev) @ snd (warn_loop states (py_split CHR '','' val))"
  using assms by (simp_all add: warn_on_disengaged_interlocks_def fst_bind snd_bind)

lemma close_channel_fst:
  assumes inv: "inventory pyfloat dev ids nrows ncols"
      and st: "fst (get_interlock_state pyfloat dev) = Inr states"
  shows "fst (close_channel pyfloat dev val) =
     (if val \<in> set (slot_specifiers ids) then Inl Keithley3706AInvalidValue
      else if \<not> list_all (\<lambda>e. e \<in> set (code_legal_set ids nrows ncols)) (py_split CHR '','' val)
        then Inl Keithley3706AInvalidValue
      else fst (warn_loop states (py_split CHR '','' val)))"
proof -
  from inv have i: "fst (get_slot_ids dev) = Inr ids" by (simp add: inventory_def)
  have w: "fst (bind (if c then warn forbidden_warning else return ()) f) = fst (f ())" for c and f :: "unit \<Rightarrow> unit io"
    by (simp add: fst_bind)
  show ?thesis
    unfolding close_channel_def
    by (simp add: fst_bind get_slot_names_ok [OF i] get_forbidden_channels_ok [OF inv]
        validator_ok [OF inv] warn_on_disengaged_interlocks_ok(1) [OF st] w slot_specifiers_def
        split: sum.splits)
qed

lemma legal_slots_found:
  assumes inv: "inventory pyfloat dev ids nrows ncols"
      and st: "fst (get_interlock_state pyfloat dev) = Inr states"
      and lg: "list_all (\<lambda>e. e \<in> set (code_legal_set ids nrows ncols)) xs"
  shows "list_all (\<lambda>e. length e = 4 \<longrightarrow> e ! 1 = CHR ''9'' \<longrightarrow> [e ! 0] \<in> fst ` set states) xs"
proof -
  from inv have i: "fst (get_slot_ids dev) = Inr ids" by (simp add: inventory_def)
  have "fst ` set states = set ids"
    using get_interlock_state_slots [OF i st] by (metis set_map)
  with lg legal_4char [OF inv] show ?thesis
    by (simp add: list_all_iff)
qed

text \<open>
  C7. With the inventory and interlock queries succeeding, \<open>close_channel\<close> raises
  Keithley3706AInvalidValue for every specifier with a comma-separated element whose length
  is not 4, a channel range that passed the validator included, and sends no write.
\<close>

theorem close_channel_rejects_other_lengths:
  assumes "inventory pyfloat dev ids nrows ncols"
      and "fst (get_interlock_state pyfloat dev) = Inr states"
      and "list_ex (\<lambda>e. length e \<noteq> 4) (py_split CHR '','' val)"
  shows "fst (close_channel pyfloat dev val) = Inl Keithley3706AInvalidValue \<and>
         no_write (snd (close_channel pyfloat dev val))"
proof -
  have "fst (warn_loop states (py_split CHR '','' val)) = Inl Keithley3706AInvalidValue"
    if "list_all (\<lambda>e. e \<in> set (code_legal_set ids nrows ncols)) (py_split CHR '','' val)"
    using warn_loop_rejects [OF legal_slots_found [OF assms(1,2) that] assms(3)] .
  then have f: "fst (close_channel pyfloat dev val) = Inl Keithley3706AInvalidValue"
    unfolding close_channel_fst [OF assms(1,2)] by simp
  with fails_before_write_close_channel [of pyfloat dev val] show ?thesis
    by (simp add: fails_before_write_def)
qed

lemma demo_states:
  "fst (get_interlock_state demo_float (demo_switch r c ''0'')) = Inr [(''1'', disengaged)]"
  by (simp add: get_interlock_state_def fst_bind demo_slot_ids get_interlock_state_by_slot_def
      int_str_def isdigit_def is_digit_def nat_of_digits_def digit_value_def str_int_def
      str_nat_small digit_char_def demo_switch_def int_float_def demo_float_def py_int_def
      interlock_status_def)

theorem close_channel_rejects_other_lengths_witness:
  "fst (validator demo_float (demo_switch ''2'' ''2'' ''0'') ''1101:1102'') = Inr True \<and>
   fst (close_channel demo_float (demo_switch ''2'' ''2'' ''0'') ''1101:1102'')
     = Inl Keithley3706AInvalidValue \<and>
   no_write (snd (close_channel demo_float (demo_switch ''2'' ''2'' ''0'') ''1101:1102''))"
proof -
  have v: "fst (validator demo_float (demo_switch ''2'' ''2'' ''0'') ''1101:1102'') = Inr True"
    by (simp add: validator_ok [OF demo_inventory] demo_legal)
  have x: "list_ex (\<lambda>e. length e \<noteq> 4) (py_split CHR '','' ''1101:1102'')"
    by simp
  from close_channel_rejects_other_lengths [OF demo_inventory demo_states x] v
  show ?thesis by simp
qed

lemma close_channel_trace:
  assumes inv: "inventory pyfloat dev ids nrows ncols"
      and st: "fst (get_interlock_state pyfloat dev) = Inr states"
      and ns: "val \<notin> set (slot_specifiers ids)"
      and lg: "list_all (\<lambda>e. e \<in> set (code_legal_set ids nrows ncols)) (py_split CHR '','' val)"
      and l4: "list_all (\<lambda>e. length e = 4) (py_split CHR '','' val)"
  shows "fst (close_channel pyfloat dev val) = Inr ()"
    and "snd (close_channel pyfloat dev val) =
           (snd (get_slot_names dev) @ snd (get_forbidden_channels pyfloat dev ''allslots'') @
            snd (validator pyfloat dev val)) @
           (if val \<in> set (py_split CHR '','' (forbidden_reply dev))
            then [Warning forbidden_warning] else []) @
           snd (get_interlock_state pyfloat dev) @
           interlock_warnings states (py_split CHR '','' val) @
           [Write (close_command val)]"
proof -
  from inv have i: "fst (get_slot_ids dev) = Inr ids" by (simp add: inventory_def)
  have "list_all (\<lambda>e. length e = 4 \<and> (e ! 1 = CHR ''9'' \<longrightarrow> [e ! 0] \<in> fst ` set states))
          (py_split CHR '','' val)"
    using legal_slots_found [OF inv st lg] l4 by (simp add: list_all_iff)
  note wl = warn_loop_ok [OF this]
  from wl show "fst (close_channel pyfloat dev val) = Inr ()"
    unfolding close_channel_fst [OF inv st] using ns lg by simp
  have ns': "val \<noteq> ''allslots''" "val \<notin> (\<lambda>x. ''slot'' @ x) ` set ids"
    using ns by (simp_all add: slot_specifiers_def)
  show "snd (close_channel pyfloat dev val) =
           (snd (get_slot_names dev) @ snd (get_forbidden_channels pyfloat dev ''allslots'') @
            snd (validator pyfloat dev val)) @
           (if val \<in> set (py_split CHR '','' (forbidden_reply dev))
            then [Warning forbidden_warning] else []) @
           snd (get_interlock_state pyfloat dev) @
           interlock_warnings states (py_split CHR '','' val) @
           [Write (close_command val)]"
    unfolding close_channel_def
    using ns' lg wl
    by (simp add: snd_bind fst_bind get_slot_names_ok [OF i] get_forbidden_channels_ok [OF inv]
        validator_ok [OF inv] warn_on_disengaged_interlocks_ok [OF st] close_command_def)
qed

lemma no_write_filter: "no_write evs \<Longrightarrow> filter is_write evs = []"
  by (induction evs) (simp_all add: no_write_def)

lemma no_write_interlock_warnings [simp]: "no_write (interlock_warnings states xs)"
  by (induction xs) (simp_all add: interlock_warnings_def)

lemma in_interlock_warnings:
  "e \<in> set xs \<Longrightarrow> e ! 1 = CHR ''9'' \<Longrightarrow> map_of states [e ! 0] = Some disengaged \<Longrightarrow>
   Warning (interlock_warning [e ! 0] e) \<in> set (interlock_warnings states xs)"
  by (induction xs) (auto simp: interlock_warnings_def)

text \<open>A specifier that is not a slot name, passes the validator and consists of
  4-character ids is closed: the only write, the last entry of the trace, is the close
  command. The forbidden warning is emitted when the whole specifier is an entry of the
  forbidden list, the interlock warning for every backplane relay of a disengaged slot.\<close>

lemma close_channel_warnings_do_not_block:
  assumes "inventory pyfloat dev ids nrows ncols"
      and "fst (get_interlock_state pyfloat dev) = Inr states"
      and "val \<notin> set (slot_specifiers ids)"
      and "list_all (\<lambda>e. e \<in> set (code_legal_set ids nrows ncols)) (py_split CHR '','' val)"
      and "list_all (\<lambda>e. length e = 4) (py_split CHR '','' val)"
  shows "fst (close_channel pyfloat dev val) = Inr () \<and>
         filter is_write (snd (close_channel pyfloat dev val)) = [Write (close_command val)] \<and>
         last (snd (close_channel pyfloat dev val)) = Write (close_command val) \<and>
         (val \<in> set (py_split CHR '','' (forbidden_reply dev)) \<longrightarrow>
            Warning forbidden_warning \<in> set (snd (close_channel pyfloat dev val))) \<and>
         (\<forall>e\<in>set (py_split CHR '','' val).
            e ! 1 = CHR ''9'' \<and> map_of states [e ! 0] = Some disengaged \<longrightarrow>
            Warning (interlock_warning [e ! 0] e) \<in> set (snd (close_channel pyfloat dev val)))"
proof -
  note t = close_channel_trace [OF assms]
  have 1: "filter is_write (snd (close_channel pyfloat dev val)) = [Write (close_command val)]"
    unfolding t(2) by (simp add: no_write_filter)
  have 2: "last (snd (close_channel pyfloat dev val)) = Write (close_command val)"
    unfolding t(2) by simp
  have 3: "Warning forbidden_warning \<in> set (snd (close_channel pyfloat dev val))"
    if "val \<in> set (py_split CHR '','' (forbidden_reply dev))"
    unfolding t(2) using that by simp
  have 4: "Warning (interlock_warning [e ! 0] e) \<in> set (snd (close_channel pyfloat dev val))"
    if "e \<in> set (py_split CHR '','' val)" "e ! 1 = CHR ''9''"
       "map_of states [e ! 0] = Some disengaged" for e
    unfolding t(2) using in_interlock_warnings [OF that] by simp
  from t(1) 1 2 3 4 show ?thesis by blast
qed

lemma close_channel_demo_1911:
  "''1911'' \<in> set (py_split CHR '','' (forbidden_reply (demo_switch ''2'' ''2'' ''0''))) \<and>
   fst (get_interlock_state demo_float (demo_switch ''2'' ''2'' ''0'')) = Inr [(''1'', disengaged)] \<and>
   fst (close_channel demo_float (demo_switch ''2'' ''2'' ''0'') ''1911'') = Inr () \<and>
   Warning forbidden_warning
     \<in> set (snd (close_channel demo_float (demo_switch ''2'' ''2'' ''0'') ''1911'')) \<and>
   Warning (interlock_warning ''1'' ''1911'')
     \<in> set (snd (close_channel demo_float (demo_switch ''2'' ''2'' ''0'') ''1911'')) \<and>
   last (snd (close_channel demo_float (demo_switch ''2'' ''2'' ''0'') ''1911''))
     = Write (close_command ''1911'')"
proof -
  have f: "''1911'' \<in> set (py_split CHR '','' (forbidden_reply (demo_switch ''2'' ''2'' ''0'')))"
    by (simp add: forbidden_reply_def demo_switch_def)
  have ns: "''1911'' \<notin> set (slot_specifiers [''1''])"
    by (simp add: slot_specifiers_def)
  have lg: "list_all (\<lambda>e. e \<in> set (code_legal_set [''1''] [2] [2])) (py_split CHR '','' ''1911'')"
    by (simp add: demo_legal)
  have l4: "list_all (\<lambda>e. length e = 4) (py_split CHR '','' ''1911'')"
    by simp
  note t = close_channel_warnings_do_not_block [OF demo_inventory demo_states ns lg l4]
  have e: "''1911'' \<in> set (py_split CHR '','' ''1911'')" by simp
  have m: "''1911'' ! 1 = CHR ''9'' \<and> map_of [(''1'', disengaged)] [''1911'' ! 0] = Some disengaged"
    by simp
  from t have w: "Warning (interlock_warning [''1911'' ! 0] ''1911'')
     \<in> set (snd (close_channel demo_float (demo_switch ''2'' ''2'' ''0'') ''1911''))"
    using e m by blast
  from t f have "fst (close_channel demo_float (demo_switch ''2'' ''2'' ''0'') ''1911'') = Inr ()"
    "Warning forbidden_warning
     \<in> set (snd (close_channel demo_float (demo_switch ''2'' ''2'' ''0'') ''1911''))"
    "last (snd (close_channel demo_float (demo_switch ''2'' ''2'' ''0'') ''1911''))
     = Write (close_command ''1911'')"
    by blast+
  with f w demo_states show ?thesis by simp
qed

lemma of_char_digit_char: "d < 10 \<Longrightarrow> of_char (digit_char d) = (48 + d :: nat)"
proof -
  assume "d < 10"
  then have "d \<in> {0, 1, 2, 3, 4, 5, 6, 7, 8, 9}" by auto
  then show ?thesis by (auto simp: digit_char_def)
qed

lemma digit_char_inj: "a < 10 \<Longrightarrow> b < 10 \<Longrightarrow> digit_char a = digit_char b \<Longrightarrow> a = b"
proof -
  assume a: "a < 10" and b: "b < 10" and e: "digit_char a = digit_char b"
  from e have "(of_char (digit_char a) :: nat) = of_char (digit_char b)"
    by (simp only:)
  then have "48 + a = 48 + b"
    by (simp only: of_char_digit_char [OF a] of_char_digit_char [OF b])
  then show "a = b" by simp
qed

lemma length_str_nat_ge10: "10 \<le> n \<Longrightarrow> 2 \<le> length (str_nat n)"
  using str_nat_not_Nil [of "n div 10"]
  by (subst str_nat.simps) (cases "str_nat (n div 10)", simp_all)

lemma str_nat_single: "str_nat n = [d] \<Longrightarrow> n < 10 \<and> d = digit_char n"
proof (cases "n < 10")
  case True
  assume "str_nat n = [d]"
  with True show ?thesis by (simp add: str_nat_small)
next
  case False
  assume "str_nat n = [d]"
  with length_str_nat_ge10 [of n] False show ?thesis by simp
qed

lemma str_nat_two:
  assumes "str_nat n = [a, b]"
  shows "n div 10 < 10 \<and> a = digit_char (n div 10) \<and> b = digit_char (n mod 10)"
proof (cases "n < 10")
  case True
  with assms show ?thesis by (simp add: str_nat_small)
next
  case False
  then have "str_nat n = str_nat (n div 10) @ [digit_char (n mod 10)]"
    by (subst str_nat.simps) simp
  with assms have "str_nat (n div 10) = [a]" "b = digit_char (n mod 10)"
    by (simp_all add: append_eq_Cons_conv Cons_eq_append_conv)
  with str_nat_single [of "n div 10" a] False show ?thesis by simp
qed

lemma length_column_name: "1 \<le> c \<Longrightarrow> 2 \<le> length (column_name c)"
proof (cases "c < 10")
  case True
  assume "1 \<le> c"
  with True str_int_not_Nil [of c] show ?thesis
    by (cases "str_int c") (simp_all add: column_name_def)
next
  case False
  then have "10 \<le> nat c" by simp
  from length_str_nat_ge10 [OF this] False show ?thesis
    by (simp add: column_name_def str_int_def)
qed

lemma str_int_9: "1 \<le> r \<Longrightarrow> str_int r = ''9'' \<longleftrightarrow> r = 9"
proof
  assume r: "1 \<le> r" and "str_int r = ''9''"
  then have s: "str_nat (nat r) = [CHR ''9'']" by (simp add: str_int_def)
  from str_nat_single [OF s] have "nat r < 10" "digit_char (nat r) = digit_char 9"
    by (simp_all add: digit_char_def)
  then have "nat r = 9" using digit_char_inj [of "nat r" 9] by simp
  with r show "r = 9" by simp
next
  assume "r = 9"
  then show "str_int r = ''9''" by (simp add: str_int_def str_nat_small digit_char_def)
qed

lemma column_name_71: "1 \<le> c \<Longrightarrow> column_name c = ''71'' \<longleftrightarrow> c = 71"
proof
  assume c: "1 \<le> c" and e: "column_name c = ''71''"
  have ge: "\<not> c < 10" using e by (auto simp: column_name_def)
  with e have s: "str_nat (nat c) = [CHR ''7'', CHR ''1'']"
    by (simp add: column_name_def str_int_def)
  from str_nat_two [OF s] have d: "nat c div 10 < 10" "digit_char (nat c div 10) = digit_char 7"
    "digit_char (nat c mod 10) = digit_char 1"
    by (simp_all add: digit_char_def)
  have "nat c div 10 = 7" using digit_char_inj [OF d(1) _ d(2)] by simp
  moreover have "nat c mod 10 = 1" using digit_char_inj [OF _ _ d(3)] by simp
  moreover have "nat c = nat c div 10 * 10 + nat c mod 10" by simp
  ultimately have "nat c = 71" by simp
  with c show "c = 71" by simp
next
  assume "c = 71"
  then have "str_nat (nat c) = str_nat 7 @ [digit_char 1]"
    by (subst str_nat.simps) simp
  with \<open>c = 71\<close> show "column_name c = ''71''"
    by (simp add: column_name_def str_int_def str_nat_small digit_char_def)
qed

lemma relay_in_matrix_channels:
  assumes "length t = 2"
  shows "CHR ''1'' # CHR ''9'' # t \<in> set (matrix_channels [''1''] [nr] [nc])
           \<longleftrightarrow> 9 \<le> nr \<and> t \<in> set (columns_in_slot nc)"
proof
  assume "CHR ''1'' # CHR ''9'' # t \<in> set (matrix_channels [''1''] [nr] [nc])"
  then obtain r c where e: "CHR ''9'' # t = str_int r @ column_name c"
    and r: "1 \<le> r" "r \<le> nr" and c: "1 \<le> c" "c \<le> nc"
    by (auto simp: in_matrix_channels)
  from e assms have "length (str_int r) + length (column_name c) = 3"
    by (metis length_append length_Cons numeral_3_eq_3 numeral_2_eq_2 Suc_eq_plus1 add.commute list.size(4))
  moreover have "1 \<le> length (str_int r)"
    using str_int_not_Nil [of r] by (cases "str_int r") simp_all
  ultimately have "length (str_int r) = 1"
    using length_column_name [OF c(1)] by arith
  then obtain d where d: "str_int r = [d]"
    by (cases "str_int r") simp_all
  with e have "d = CHR ''9''" "column_name c = t" by simp_all
  with d r c str_int_9 [OF r(1)] show "9 \<le> nr \<and> t \<in> set (columns_in_slot nc)"
    by (auto simp: set_columns_in_slot)
next
  assume a: "9 \<le> nr \<and> t \<in> set (columns_in_slot nc)"
  then obtain c where c: "t = column_name c" "1 \<le> c" "c \<le> nc"
    by (auto simp: set_columns_in_slot)
  have "str_int 9 = ''9''" using str_int_9 [of 9] by simp
  then have "CHR ''1'' # CHR ''9'' # t = CHR ''1'' # str_int 9 @ column_name c"
    using c(1) by simp
  moreover have "(1::int) \<le> 9" by simp
  ultimately show "CHR ''1'' # CHR ''9'' # t \<in> set (matrix_channels [''1''] [nr] [nc])"
    unfolding in_matrix_channels [of "[nr]" "[''1'']" "[nc]", simplified]
    using a c by (intro exI [of _ 9] exI [of _ c]) simp
qed

lemma relay_legal:
  assumes "length t = 2"
  shows "CHR ''1'' # CHR ''9'' # t \<in> set (code_legal_set [''1''] [nr] [nc]) \<longleftrightarrow>
           t \<in> set [''11'', ''12'', ''13'', ''14'', ''15'', ''16''] \<or>
           (9 \<le> nr \<and> t \<in> set (columns_in_slot nc))"
proof -
  have r: "CHR ''1'' # CHR ''9'' # t \<notin> set (code_channel_ranges [''1''] [nr] [nc])"
    using in_code_channel_ranges [of "CHR ''1'' # CHR ''9'' # t" "[''1'']" "[nr]" "[nc]"] assms
    by auto
  have s: "CHR ''1'' # CHR ''9'' # t \<notin> set (slot_specifiers [''1''])"
    by (simp add: slot_specifiers_def)
  have b: "CHR ''1'' # CHR ''9'' # t \<in> set (backplane_relays [''1'']) \<longleftrightarrow>
             t \<in> set [''11'', ''12'', ''13'', ''14'', ''15'', ''16'']"
    by (simp add: backplane_relays_def)
  show ?thesis
    unfolding code_legal_set_def set_append Un_iff relay_in_matrix_channels [OF assms] b
    using r s by blast
qed

lemma validator_relay:
  assumes "inventory pyfloat dev [''1''] [nr] [nc]" and "length t = 2" and "CHR '','' \<notin> set t"
  shows "fst (validator pyfloat dev (CHR ''1'' # CHR ''9'' # t)) =
           Inr (t \<in> set [''11'', ''12'', ''13'', ''14'', ''15'', ''16''] \<or>
                (9 \<le> nr \<and> t \<in> set (columns_in_slot nc)))"
proof -
  have "py_split CHR '','' xs = [xs]" if "CHR '','' \<notin> set xs" for xs :: string
    using that by (induction xs) auto
  with assms(3) have "py_split CHR '','' (CHR ''1'' # CHR ''9'' # t) = [CHR ''1'' # CHR ''9'' # t]"
    by simp
  then show ?thesis
    by (simp add: validator_ok [OF assms(1)] relay_legal [OF assms(2)])
qed

lemma columns_71: "''71'' \<in> set (columns_in_slot nc) \<longleftrightarrow> 71 \<le> nc"
proof
  assume "''71'' \<in> set (columns_in_slot nc)"
  then obtain c where c: "1 \<le> c" "c \<le> nc" "column_name c = ''71''"
    by (auto simp: set_columns_in_slot)
  with column_name_71 [OF c(1)] show "71 \<le> nc" by simp
next
  assume "71 \<le> nc"
  moreover have "column_name 71 = ''71''" using column_name_71 [of 71] by simp
  ultimately show "''71'' \<in> set (columns_in_slot nc)"
    unfolding set_columns_in_slot by (intro CollectI exI [of _ 71]) simp
qed

lemma validator_1971:
  assumes "inventory pyfloat dev [''1''] [nr] [nc]"
  shows "fst (validator pyfloat dev ''1971'') = Inr (9 \<le> nr \<and> 71 \<le> nc)"
  using validator_relay [OF assms, of "''71''"] by (simp add: columns_71)

text \<open>
  C10 (amended). With a single card, installed in slot 1, the analog backplane specifiers
  are exactly \<open>1911\<close> to \<open>1916\<close>, whatever the card's row and column counts. The
  specifier \<open>1971\<close> passes validation exactly when the card has at least 9 rows and at
  least 71 columns, where it names the matrix channel of row 9 and column 71; on every
  other card it fails. In general a specifier \<open>19xy\<close> is valid exactly when \<open>xy\<close> is one of
  11 to 16 or the card has at least 9 rows and a column named \<open>xy\<close>.
\<close>

theorem single_card_relays:
  assumes "inventory pyfloat dev [''1''] [nr] [nc]"
  shows "fst (get_analog_backplane_specifiers dev)
           = Inr [''1911'', ''1912'', ''1913'', ''1914'', ''1915'', ''1916''] \<and>
         fst (validator pyfloat dev ''1971'') = Inr (9 \<le> nr \<and> 71 \<le> nc) \<and>
         (\<forall>t. length t = 2 \<and> CHR '','' \<notin> set t \<longrightarrow>
            fst (validator pyfloat dev (CHR ''1'' # CHR ''9'' # t)) =
              Inr (t \<in> set [''11'', ''12'', ''13'', ''14'', ''15'', ''16''] \<or>
                   (9 \<le> nr \<and> t \<in> set (columns_in_slot nc))))"
proof -
  from assms have i: "fst (get_slot_ids dev) = Inr [''1'']" by (simp add: inventory_def)
  have "backplane_relays [''1''] = [''1911'', ''1912'', ''1913'', ''1914'', ''1915'', ''1916'']"
    by (simp add: backplane_relays_def)
  then have 1: "fst (get_analog_backplane_specifiers dev)
           = Inr [''1911'', ''1912'', ''1913'', ''1914'', ''1915'', ''1916'']"
    using get_analog_backplane_specifiers_ok [OF i] by simp
  have 3: "fst (validator pyfloat dev (CHR ''1'' # CHR ''9'' # t)) =
              Inr (t \<in> set [''11'', ''12'', ''13'', ''14'', ''15'', ''16''] \<or>
                   (9 \<le> nr \<and> t \<in> set (columns_in_slot nc)))"
    if "length t = 2" "CHR '','' \<notin> set t" for t
    using validator_relay [OF assms that] .
  from 1 validator_1971 [OF assms] 3 show ?thesis by blast
qed

lemma demo_inventory_9x71: "inventory demo_float (demo_switch ''9'' ''71'' st) [''1''] [9] [71]"
  by (simp add: inventory_def demo_slot_ids get_number_of_rows_def get_number_of_columns_def
      fst_bind int_float_def demo_float_def demo_switch_def isdigit_def is_digit_def
      nat_of_digits_def digit_value_def py_int_def)

text \<open>
  C10, as stated, fails on a single card of 9 rows and 71 columns in slot 1: there
  \<open>1971\<close> is an enumerated matrix channel and the validator accepts it.
\<close>

theorem validator_accepts_1971_on_9x71:
  "fst (get_slot_ids (demo_switch ''9'' ''71'' ''0'')) = Inr [''1''] \<and>
   fst (get_number_of_rows demo_float (demo_switch ''9'' ''71'' ''0'')) = Inr [9] \<and>
   fst (get_number_of_columns demo_float (demo_switch ''9'' ''71'' ''0'')) = Inr [71] \<and>
   fst (validator demo_float (demo_switch ''9'' ''71'' ''0'') ''1971'') = Inr True"
  using demo_inventory_9x71 [of "''0''"] validator_1971 [OF demo_inventory_9x71 [of "''0''"]]
  by (simp add: inventory_def)

theorem single_card_relays_witness:
  "fst (get_analog_backplane_specifiers (demo_switch ''6'' ''8'' ''0''))
           = Inr [''1911'', ''1912'', ''1913'', ''1914'', ''1915'', ''1916''] \<and>
   fst (validator demo_float (demo_switch ''6'' ''8'' ''0'') ''1971'') = Inr False \<and>
   fst (validator demo_float (demo_switch ''6'' ''8'' ''0'') ''1917'') = Inr False \<and>
   fst (validator demo_float (demo_switch ''6'' ''8'' ''0'') ''1911'') = Inr True"
proof -
  note t = single_card_relays [OF demo_inventory_6x8 [of "''0''"]]
  from t have a: "fst (get_analog_backplane_specifiers (demo_switch ''6'' ''8'' ''0''))
           = Inr [''1911'', ''1912'', ''1913'', ''1914'', ''1915'', ''1916'']"
    and b: "fst (validator demo_float (demo_switch ''6'' ''8'' ''0'') ''1971'') = Inr False"
    by simp_all
  from t have g: "\<And>t. length t = 2 \<and> CHR '','' \<notin> set t \<Longrightarrow>
            fst (validator demo_float (demo_switch ''6'' ''8'' ''0'') (CHR ''1'' # CHR ''9'' # t)) =
              Inr (t \<in> set [''11'', ''12'', ''13'', ''14'', ''15'', ''16''] \<or>
                   (9 \<le> (6::int) \<and> t \<in> set (columns_in_slot 8)))"
    by blast
  from g [of "''17''"] g [of "''11''"] a b show ?thesis by simp
qed

lemma demo_two_slot_ids: "fst (get_slot_ids (demo_two_cards r1 c1 r2 c2)) = Inr [''1'', ''2'']"
  by (simp add: get_slot_ids_def get_switch_cards_def fst_bind str_nat_small digit_char_def
      demo_two_cards_def strip_str_def is_space_def)

lemma demo_two_inventory_a:
  "inventory demo_float (demo_two_cards ''2'' ''2'' ''1'' ''1'') [''1'', ''2''] [2, 1] [2, 1]"
  by (simp add: inventory_def demo_two_slot_ids get_number_of_rows_def get_number_of_columns_def
      fst_bind int_float_def demo_float_def demo_two_cards_def isdigit_def is_digit_def
      nat_of_digits_def digit_value_def py_int_def)

lemma demo_two_inventory_b:
  "inventory demo_float (demo_two_cards ''1'' ''1'' ''2'' ''2'') [''1'', ''2''] [1, 2] [1, 2]"
  by (simp add: inventory_def demo_two_slot_ids get_number_of_rows_def get_number_of_columns_def
      fst_bind int_float_def demo_float_def demo_two_cards_def isdigit_def is_digit_def
      nat_of_digits_def digit_value_def py_int_def)

lemma upto_1_1: "[1..1] = [1 :: int]"
  by (simp add: upto.simps)

lemma demo_two_channels:
  "matrix_channels [''1'', ''2''] [2, 1] [2, 1] = [''1101'', ''1102'', ''1201'', ''1202'', ''2101'']"
  "matrix_channels [''1'', ''2''] [1, 2] [1, 2] = [''1101'', ''2101'', ''2102'', ''2201'', ''2202'']"
  by (simp_all add: matrix_channels_def product_join_def rows_in_slot_def columns_in_slot_def
      column_name_def str_int_def str_nat_small digit_char_def upto_1_2 upto_1_1)

lemma demo_two_code_ranges:
  "code_channel_ranges [''1'', ''2''] [2, 1] [2, 1] =
     [''1101:1102'', ''1101:1201'', ''1101:1202'', ''1102:1201'', ''1102:1202'', ''1201:1202'',
      ''2101:2102'', ''2101:2201'', ''2101:2202'', ''2102:2201'', ''2102:2202'', ''2201:2202'']"
  "code_channel_ranges [''1'', ''2''] [1, 2] [1, 2] = []"
  by (simp_all add: code_channel_ranges_def product_join_def rows_in_slot_def columns_in_slot_def
      column_name_def str_int_def str_nat_small digit_char_def upto_1_2 upto_1_1)

lemma demo_two_spec_ranges:
  "spec_channel_ranges [''1'', ''2''] [2, 1] [2, 1] =
     [''1101:1102'', ''1101:1201'', ''1101:1202'', ''1102:1201'', ''1102:1202'', ''1201:1202'']"
  "spec_channel_ranges [''1'', ''2''] [1, 2] [1, 2] =
     [''2101:2102'', ''2101:2201'', ''2101:2202'', ''2102:2201'', ''2102:2202'', ''2201:2202'']"
  by (simp_all add: spec_channel_ranges_def product_join_def rows_in_slot_def columns_in_slot_def
      column_name_def str_int_def str_nat_small digit_char_def upto_1_2 upto_1_1)

text \<open>
  C5. The validator should accept exactly the strings whose elements are matrix channels,
  channel ranges, slot names or backplane relays of the installed cards. The ranges it
  enumerates for a slot are built from the rows and columns of the first card. With a
  2 by 2 card in slot 1 and a 1 by 1 card in slot 2 it accepts \<open>2102:2201\<close>, a range
  between two channels that do not exist; with the cards exchanged it rejects
  \<open>2101:2202\<close>, a range between two channels of slot 2.
\<close>

theorem validator_ranges_from_first_card:
  "fst (get_channels demo_float (demo_two_cards ''2'' ''2'' ''1'' ''1''))
     = Inr [''1101'', ''1102'', ''1201'', ''1202'', ''2101''] \<and>
   ''2102:2201'' \<notin> set (spec_legal_set [''1'', ''2''] [2, 1] [2, 1]) \<and>
   fst (validator demo_float (demo_two_cards ''2'' ''2'' ''1'' ''1'') ''2102:2201'') = Inr True \<and>
   fst (get_channels demo_float (demo_two_cards ''1'' ''1'' ''2'' ''2''))
     = Inr [''1101'', ''2101'', ''2102'', ''2201'', ''2202''] \<and>
   ''2101:2202'' \<in> set (spec_legal_set [''1'', ''2''] [1, 2] [1, 2]) \<and>
   fst (validator demo_float (demo_two_cards ''1'' ''1'' ''2'' ''2'') ''2101:2202'') = Inr False"
proof -
  have sb: "slot_specifiers [''1'', ''2''] = [''allslots'', ''slot1'', ''slot2'']"
    "backplane_relays [''1'', ''2''] =
       [''1911'', ''1912'', ''1913'', ''1914'', ''1915'', ''1916'',
        ''2911'', ''2912'', ''2913'', ''2914'', ''2915'', ''2916'']"
    by (simp_all add: slot_specifiers_def backplane_relays_def)
  have a1: "fst (get_channels demo_float (demo_two_cards ''2'' ''2'' ''1'' ''1''))
     = Inr [''1101'', ''1102'', ''1201'', ''1202'', ''2101'']"
    by (simp add: get_channels_ok [OF demo_two_inventory_a] demo_two_channels)
  have a2: "''2102:2201'' \<notin> set (spec_legal_set [''1'', ''2''] [2, 1] [2, 1])"
    by (simp add: spec_legal_set_def demo_two_channels demo_two_spec_ranges sb)
  have a3: "fst (validator demo_float (demo_two_cards ''2'' ''2'' ''1'' ''1'') ''2102:2201'') = Inr True"
    by (simp add: validator_ok [OF demo_two_inventory_a] code_legal_set_def demo_two_channels
        demo_two_code_ranges sb)
  have b1: "fst (get_channels demo_float (demo_two_cards ''1'' ''1'' ''2'' ''2''))
     = Inr [''1101'', ''2101'', ''2102'', ''2201'', ''2202'']"
    by (simp add: get_channels_ok [OF demo_two_inventory_b] demo_two_channels)
  have b2: "''2101:2202'' \<in> set (spec_legal_set [''1'', ''2''] [1, 2] [1, 2])"
    by (simp add: spec_legal_set_def demo_two_channels demo_two_spec_ranges sb)
  have b3: "fst (validator demo_float (demo_two_cards ''1'' ''1'' ''2'' ''2'') ''2101:2202'') = Inr False"
    by (simp add: validator_ok [OF demo_two_inventory_b] code_legal_set_def demo_two_channels
        demo_two_code_ranges sb)
  from a1 a2 a3 b1 b2 b3 show ?thesis by blast
qed

lemma zip_replicate2:
  "n = length ids \<Longrightarrow> zip ids (zip (replicate n r) (replicate n c)) = map (\<lambda>s. (s, r, c)) ids"
  by (induction ids arbitrary: n) auto

lemma spec_ranges_uniform:
  "spec_channel_ranges ids (replicate (length ids) r) (replicate (length ids) c) =
   code_channel_ranges ids (replicate (length ids) r) (replicate (length ids) c)"
proof (cases "ids = []")
  case True
  then show ?thesis by (simp add: spec_channel_ranges_def code_channel_ranges_def)
next
  case False
  then have "hd (replicate (length ids) r) = r" "hd (replicate (length ids) c) = c"
    by (cases ids; simp)+
  then show ?thesis
    unfolding spec_channel_ranges_def code_channel_ranges_def zip_replicate2 [OF refl]
    by (simp add: o_def)
qed

lemma validator_decides_spec_set_uniform:
  assumes "inventory pyfloat dev ids (replicate (length ids) r) (replicate (length ids) c)"
  shows "fst (validator pyfloat dev val) =
           Inr (list_all (\<lambda>e. e \<in> set (spec_legal_set ids (replicate (length ids) r)
                                            (replicate (length ids) c))) (py_split CHR '','' val))"
  by (simp add: validator_ok [OF assms] code_legal_set_def spec_legal_set_def spec_ranges_uniform)

lemma only_asks_simps [simp]:
  "only_asks []" "only_asks (a @ b) \<longleftrightarrow> only_asks a \<and> only_asks b"
  "only_asks [Ask c]" "\<not> only_asks [Warning w]" "\<not> only_asks [Write c]"
  by (simp_all add: only_asks_def)

lemma only_asks_no_warning: "only_asks evs \<Longrightarrow> Warning w \<notin> set evs"
  by (induction evs) (auto simp: only_asks_def)

lemma only_asks_bind:
  "only_asks (snd m) \<Longrightarrow> (\<And>x. only_asks (snd (f x))) \<Longrightarrow> only_asks (snd (bind m f))"
  by (simp add: snd_bind split: sum.splits)

lemma only_asks_if:
  "only_asks (snd a) \<Longrightarrow> only_asks (snd b) \<Longrightarrow> only_asks (snd (if c then a else b))"
  by simp

lemma only_asks_map_io:
  "(\<And>x. only_asks (snd (f x))) \<Longrightarrow> only_asks (snd (map_io f xs))"
  by (induction xs) (simp_all add: only_asks_bind)

lemma only_asks_switch_cards_from: "only_asks (snd (switch_cards_from dev is))"
proof (induction "is")
  case Nil
  show ?case by simp
next
  case (Cons i "is")
  show ?case
    unfolding switch_cards_from.simps
    by (rule only_asks_bind, simp, rule only_asks_if)
       (auto intro!: only_asks_bind Cons split: list.splits)
qed

lemma only_asks_get_switch_cards [simp]: "only_asks (snd (get_switch_cards dev))"
  by (simp only: get_switch_cards_def only_asks_switch_cards_from)

lemma only_asks_inventory [simp]:
  "only_asks (snd (get_slot_ids dev))"
  "only_asks (snd (get_slot_names dev))"
  "only_asks (snd (int_float pyfloat x))"
  "only_asks (snd (int_str x))"
  "only_asks (snd (get_analog_backplane_specifiers dev))"
  by (auto simp: get_slot_ids_def get_slot_names_def int_float_def
      int_str_def get_analog_backplane_specifiers_def
      intro!: only_asks_bind split: option.splits)

lemma only_asks_counts [simp]:
  "only_asks (snd (get_number_of_rows pyfloat dev))"
  "only_asks (snd (get_number_of_columns pyfloat dev))"
  "only_asks (snd (get_rows pyfloat dev))"
  "only_asks (snd (get_columns pyfloat dev))"
  by (auto simp: get_number_of_rows_def get_number_of_columns_def get_rows_def get_columns_def
      intro!: only_asks_bind only_asks_map_io)

lemma only_asks_channels [simp]:
  "only_asks (snd (get_channels pyfloat dev))"
  "only_asks (snd (get_channels_by_slot pyfloat dev n))"
  by (auto simp: get_channels_def get_channels_by_slot_def
      intro!: only_asks_bind split: sum.splits list.splits)

lemma only_asks_validator [simp]:
  "only_asks (snd (get_channel_ranges pyfloat dev))"
  "only_asks (snd (legal_specifiers pyfloat dev))"
  "only_asks (snd (validator pyfloat dev val))"
  by (auto simp: get_channel_ranges_def legal_specifiers_def validator_def
      intro!: only_asks_bind only_asks_map_io)

lemma only_asks_interlock [simp]:
  "only_asks (snd (interlock_status state))"
  "only_asks (snd (get_interlock_state_by_slot pyfloat dev slot))"
  "only_asks (snd (get_interlock_state pyfloat dev))"
  "only_asks (snd (get_forbidden_channels pyfloat dev val))"
  by (auto simp: interlock_status_def get_interlock_state_by_slot_def get_interlock_state_def
      get_forbidden_channels_def intro!: only_asks_bind only_asks_map_io)

text \<open>
  C8. Closing a channel that is on the forbidden list should emit the forbidden warning and
  still send the close command. \<open>close_channel\<close> compares the whole specifier, not its
  elements, with the entries of the forbidden list: with \<open>1101\<close> forbidden, closing
  \<open>1101,1102\<close> sends the close command and emits no forbidden warning.
\<close>

theorem close_channel_forbidden_element_unwarned:
  "''1101'' \<in> set (py_split CHR '','' (forbidden_reply (demo_switch ''2'' ''2'' ''0''))) \<and>
   ''1101'' \<in> set (py_split CHR '','' ''1101,1102'') \<and>
   fst (close_channel demo_float (demo_switch ''2'' ''2'' ''0'') ''1101,1102'') = Inr () \<and>
   Warning forbidden_warning
     \<notin> set (snd (close_channel demo_float (demo_switch ''2'' ''2'' ''0'') ''1101,1102'')) \<and>
   last (snd (close_channel demo_float (demo_switch ''2'' ''2'' ''0'') ''1101,1102''))
     = Write (close_command ''1101,1102'')"
proof -
  let ?dev = "demo_switch ''2'' ''2'' ''0''"
  have f: "py_split CHR '','' (forbidden_reply ?dev) = [''1101'', ''1911'']"
    by (simp add: forbidden_reply_def demo_switch_def)
  have ns: "''1101,1102'' \<notin> set (slot_specifiers [''1''])"
    by (simp add: slot_specifiers_def)
  have lg: "list_all (\<lambda>e. e \<in> set (code_legal_set [''1''] [2] [2])) (py_split CHR '','' ''1101,1102'')"
    by (simp add: demo_legal)
  have l4: "list_all (\<lambda>e. length e = 4) (py_split CHR '','' ''1101,1102'')"
    by simp
  note t = close_channel_trace [OF demo_inventory demo_states ns lg l4]
  have iw: "interlock_warnings [(''1'', disengaged)] (py_split CHR '','' ''1101,1102'') = []"
    by (simp add: interlock_warnings_def)
  have nw: "Warning forbidden_warning \<notin> set (snd (get_slot_names ?dev))"
    "Warning forbidden_warning \<notin> set (snd (get_forbidden_channels demo_float ?dev ''allslots''))"
    "Warning forbidden_warning \<notin> set (snd (validator demo_float ?dev ''1101,1102''))"
    "Warning forbidden_warning \<notin> set (snd (get_interlock_state demo_float ?dev))"
    by (rule only_asks_no_warning, simp)+
  have w: "Warning forbidden_warning
     \<notin> set (snd (close_channel demo_float ?dev ''1101,1102''))"
    unfolding t(2) f iw using nw by simp
  have l: "last (snd (close_channel demo_float ?dev ''1101,1102'')) = Write (close_command ''1101,1102'')"
    unfolding t(2) by simp
  from f t(1) w l show ?thesis by simp
qed



lemma no_write_loops [simp]:
  "no_write (snd (reject_backplanes backplanes xs))"
  "no_write (snd (require_backplanes backplanes xs))"
  "no_write (snd (warn_slots states))"
  by (induction xs, simp_all, induction xs, simp_all, induction states)
     (auto intro!: no_write_bind)

lemma fails_before_write_if:
  "fails_before_write a \<Longrightarrow> fails_before_write b \<Longrightarrow> fails_before_write (if c then a else b)"
  by simp


















end
